theory Spec2Isabelle
  imports Complex_Main "HOL-Library.Sublist"
begin

section \<open>Shared data (types.ts)\<close>

text \<open>
  The four interfaces of the type module. A JavaScript string is modelled as a
  \<open>string\<close>, one \<open>char\<close> per code unit below 256; a JavaScript number that
  only ever counts is a \<open>nat\<close>, and a score (any number the caller or the
  backend supplies) is a rational.
\<close>

datatype role = Student | SP | Examiner

record proctoring_result =
  isCheating :: bool
  reason :: string

record transcript_entry =
  role :: role
  text' :: string

record score_category =
  score :: rat
  justification :: string

record score_data =
  rapport :: score_category
  historyTaking :: score_category
  communication :: score_category
  overallScore :: rat

section \<open>String helpers of the JavaScript runtime\<close>

text \<open>
  \<open>String.prototype.trim\<close> strips white space and line terminators from both
  ends. Below code unit 256 these are TAB, LF, VT, FF, CR, SPACE and NBSP.
\<close>

definition isWhiteSpace :: "char \<Rightarrow> bool" where
  "isWhiteSpace c \<longleftrightarrow>
     c \<in> set [CHR 0x09, CHR 0x0A, CHR 0x0B, CHR 0x0C, CHR 0x0D, CHR 0x20, CHR 0xA0]"

definition trim :: "string \<Rightarrow> string" where
  "trim s = rev (dropWhile isWhiteSpace (rev (dropWhile isWhiteSpace s)))"

text \<open>Decimal rendering of a counter inside a template literal.\<close>

definition digit :: "nat \<Rightarrow> char" where
  "digit d = (''0123456789'' ! d)"

function decimal :: "nat \<Rightarrow> string" where
  "decimal n = (if n < 10 then [digit n] else decimal (n div 10) @ [digit (n mod 10)])"
  by pat_completeness auto
termination
  by (relation "measure id") auto

declare decimal.simps [simp del]

section \<open>The warning accumulator (App component)\<close>

text \<open>
  The state hooks of \<open>App\<close>. \<open>totalWarnings\<close> is derived on every render.
  \<open>showWarning\<close> writes the message; its timeout, which blanks the message three
  seconds later, touches nothing but the message text and is left out.
\<close>

record app =
  examStarted :: bool
  fullscreenWarnings :: nat
  proctoringWarnings :: nat
  isExamBlocked :: bool
  warningMessage :: string

definition initialApp :: app where
  "initialApp = \<lparr>examStarted = False, fullscreenWarnings = 0, proctoringWarnings = 0,
     isExamBlocked = False, warningMessage = ''''\<rparr>"

definition totalWarnings :: "app \<Rightarrow> nat" where
  "totalWarnings a = fullscreenWarnings a + proctoringWarnings a"

definition handleStartExam_App :: "app \<Rightarrow> app" where
  "handleStartExam_App a = a\<lparr>examStarted := True\<rparr>"

definition showWarning :: "string \<Rightarrow> app \<Rightarrow> app" where
  "showWarning message a = a\<lparr>warningMessage := message\<rparr>"

text \<open>
  The two handlers are made by \<open>useCallback\<close>: what they read (\<open>examStarted\<close>,
  \<open>isExamBlocked\<close>, the counters, \<open>totalWarnings\<close>) is the state of the render
  that made the callback, and what they set is a value computed from it. So each
  takes the state it has \<open>seen\<close> beside the state it writes to.

  \<open>handleFullscreenChange\<close>; the flag says whether \<open>document.fullscreenElement\<close> is
  set when the event arrives, so a fullscreen exit is the call with \<open>False\<close>.
\<close>

definition handleFullscreenChange :: "app \<Rightarrow> bool \<Rightarrow> app \<Rightarrow> app" where
  "handleFullscreenChange seen fullscreenElement a =
     (if \<not> fullscreenElement \<and> examStarted seen \<and> \<not> isExamBlocked seen then
        let newCount = fullscreenWarnings seen + 1;
            a1 = a\<lparr>fullscreenWarnings := newCount\<rparr>;
            a2 = showWarning (''Fullscreen exited. Warning '' @ decimal (totalWarnings seen + 1)
                   @ '' of 5.'') a1
        in if newCount \<ge> 2
           then a2\<lparr>isExamBlocked := True,
                  warningMessage := ''Exam locked. You have exited fullscreen mode multiple times.''\<rparr>
           else a2
      else a)"

definition handleProctoringViolation :: "app \<Rightarrow> string \<Rightarrow> app \<Rightarrow> app" where
  "handleProctoringViolation seen why a =
     (if isExamBlocked seen then a
      else
        let newCount = proctoringWarnings seen + 1;
            a1 = a\<lparr>proctoringWarnings := newCount\<rparr>
        in showWarning (''Proctoring Alert: '' @ why @ ''. Warning ''
             @ decimal (totalWarnings seen + 1) @ '' of 5.'') a1)"

text \<open>The effect that runs after a render in which the total or the block flag changed.\<close>

definition totalWarningsEffect :: "app \<Rightarrow> app" where
  "totalWarningsEffect a =
     (if totalWarnings a \<ge> 5 \<and> \<not> isExamBlocked a
      then a\<lparr>isExamBlocked := True, warningMessage := ''Exam terminated after 5 warnings.''\<rparr>
      else a)"

text \<open>
  The page during the exam: the state of \<open>App\<close> and the proctoring polls of
  \<open>WebcamProctor\<close> that wait for their classification. \<open>runProctoringCheck\<close> holds
  the \<open>isBlocked\<close> and the \<open>onViolation\<close> of the render in which the interval was
  set, which is the latest one when a poll starts; a poll in flight is therefore the
  state of \<open>App\<close> at its start.
\<close>

record exam_page =
  appState :: app
  pollsInFlight :: "app list"

definition initialPage :: exam_page where
  "initialPage = \<lparr>appState = initialApp, pollsInFlight = []\<rparr>"

text \<open>
  \<open>runProctoringCheck\<close> of the exam up to its \<open>await\<close>. \<open>captureReady\<close> stands for
  the guards on the video, the canvas and the 2d context.
\<close>

definition runProctoringCheck_begin :: "bool \<Rightarrow> exam_page \<Rightarrow> exam_page" where
  "runProctoringCheck_begin captureReady e =
     (if \<not> captureReady \<or> isExamBlocked (appState e) then e
      else e\<lparr>pollsInFlight := pollsInFlight e @ [appState e]\<rparr>)"

text \<open>
  The rest of \<open>runProctoringCheck\<close> for the poll at position \<open>k\<close> of those in flight,
  when \<open>analyzeStudentFrame\<close> has resolved to \<open>result\<close>: a flagged result calls the
  \<open>onViolation\<close> the poll holds.
\<close>

definition runProctoringCheck_resume :: "nat \<Rightarrow> proctoring_result \<Rightarrow> exam_page \<Rightarrow> exam_page" where
  "runProctoringCheck_resume k result e =
     (if k < length (pollsInFlight e) then
        let seen = pollsInFlight e ! k;
            e1 = e\<lparr>pollsInFlight := take k (pollsInFlight e) @ drop (Suc k) (pollsInFlight e)\<rparr>
        in if isCheating result
           then e1\<lparr>appState := handleProctoringViolation seen (reason result) (appState e1)\<rparr>
           else e1
      else e)"

text \<open>
  One event of the page. The fullscreen listener is set anew after every render, so
  it is the callback of the current state; polls start only while \<open>WebcamProctor\<close> is
  mounted, which is when the exam has started. The render that follows the handler
  runs the effect.
\<close>

datatype page_event = StartExam | FullscreenChange bool | PollStarts bool
  | PollAnswers nat proctoring_result

fun pageHandler :: "page_event \<Rightarrow> exam_page \<Rightarrow> exam_page" where
  "pageHandler StartExam e = e\<lparr>appState := handleStartExam_App (appState e)\<rparr>"
| "pageHandler (FullscreenChange fullscreenElement) e =
     e\<lparr>appState := handleFullscreenChange (appState e) fullscreenElement (appState e)\<rparr>"
| "pageHandler (PollStarts captureReady) e =
     (if examStarted (appState e) then runProctoringCheck_begin captureReady e else e)"
| "pageHandler (PollAnswers k result) e = runProctoringCheck_resume k result e"

definition pageStep :: "exam_page \<Rightarrow> page_event \<Rightarrow> exam_page" where
  "pageStep e ev =
     (let e1 = pageHandler ev e in e1\<lparr>appState := totalWarningsEffect (appState e1)\<rparr>)"

definition pageRun :: "exam_page \<Rightarrow> page_event list \<Rightarrow> exam_page" where
  "pageRun e evs = foldl pageStep e evs"

section \<open>The lobby pre-check (Lobby component)\<close>

text \<open>
  The hooks of \<open>Lobby\<close> that the camera check uses. \<open>proctoringIntervalRef\<close>
  holds whether the three-second interval is running.
\<close>

record lobby =
  proctoringResult :: proctoring_result
  isSetupActive :: bool
  proctoringPassed :: bool
  clearChecks :: nat
  proctoringIntervalRef :: bool

definition initialLobby :: lobby where
  "initialLobby = \<lparr>proctoringResult = \<lparr>isCheating = False, reason = ''Initializing...''\<rparr>,
     isSetupActive = False, proctoringPassed = False, clearChecks = 0,
     proctoringIntervalRef = False\<rparr>"

text \<open>\<open>startSetup\<close>; the argument says whether the camera request was granted.\<close>

definition startSetup :: "bool \<Rightarrow> lobby \<Rightarrow> lobby" where
  "startSetup granted l =
     (if granted then
        l\<lparr>isSetupActive := True,
          proctoringResult := \<lparr>isCheating = False, reason = ''Starting proctoring...''\<rparr>,
          proctoringIntervalRef := True\<rparr>
      else
        l\<lparr>proctoringResult :=
            \<lparr>isCheating = True, reason = ''Could not access camera. Please grant permission.''\<rparr>\<rparr>)"

text \<open>
  \<open>runProctoringCheck\<close> of the lobby. \<open>captureReady\<close> stands for the two guards
  (video and canvas present with \<open>readyState \<ge> 2\<close>, and a 2d context); \<open>result\<close>
  is what \<open>analyzeStudentFrame\<close> resolved to for the captured frame.
\<close>

definition runProctoringCheck_Lobby :: "bool \<Rightarrow> proctoring_result \<Rightarrow> lobby \<Rightarrow> lobby" where
  "runProctoringCheck_Lobby captureReady result l =
     (if \<not> captureReady then l
      else
        let l1 = l\<lparr>proctoringResult := result\<rparr>
        in if \<not> isCheating result \<and> reason result = ''All clear'' then
             let newCount = clearChecks l1 + 1;
                 l2 = (if newCount \<ge> 2
                       then l1\<lparr>proctoringPassed := True, proctoringIntervalRef := False\<rparr>
                       else l1)
             in l2\<lparr>clearChecks := newCount\<rparr>
           else l1\<lparr>clearChecks := 0\<rparr>)"

text \<open>A sequence of results, each from a poll whose capture was ready.\<close>

definition lobbyFeed :: "lobby \<Rightarrow> proctoring_result list \<Rightarrow> lobby" where
  "lobbyFeed l rs = foldl (\<lambda>l r. runProctoringCheck_Lobby True r l) l rs"

text \<open>The test the check applies to a result before it counts it.\<close>

definition cleanResult :: "proctoring_result \<Rightarrow> bool" where
  "cleanResult r \<longleftrightarrow> \<not> isCheating r \<and> reason r = ''All clear''"

section \<open>The backend service (geminiService)\<close>

subsection \<open>analyzeStudentFrame\<close>

text \<open>
  The backend is outside the program. \<open>generateContent\<close> gives, for an image, either
  the rejection of the request or the \<open>text\<close> of the response (\<open>None\<close> when the
  response carries no text, on which \<open>.trim()\<close> throws); \<open>jsonParse\<close> is
  \<open>JSON.parse\<close> read at type \<open>ProctoringResult\<close>, \<open>None\<close> when it throws.
\<close>

datatype js_error = ApiFailure | TypeError | SyntaxError

text \<open>The body of the \<open>try\<close> block.\<close>

definition analyzeStudentFrame_try ::
  "(string \<Rightarrow> js_error + string option) \<Rightarrow> (string \<Rightarrow> proctoring_result option)
     \<Rightarrow> string \<Rightarrow> js_error + proctoring_result" where
  "analyzeStudentFrame_try generateContent jsonParse base64ImageData =
     (case generateContent base64ImageData of
        Inl e \<Rightarrow> Inl e
      | Inr None \<Rightarrow> Inl TypeError
      | Inr (Some responseText) \<Rightarrow>
          (case jsonParse (trim responseText) of
             None \<Rightarrow> Inl SyntaxError
           | Some result \<Rightarrow> Inr result))"

text \<open>The whole function: \<open>Inl\<close> would be a rejected promise.\<close>

definition analyzeStudentFrame ::
  "(string \<Rightarrow> js_error + string option) \<Rightarrow> (string \<Rightarrow> proctoring_result option)
     \<Rightarrow> string \<Rightarrow> js_error + proctoring_result" where
  "analyzeStudentFrame generateContent jsonParse base64ImageData =
     (case analyzeStudentFrame_try generateContent jsonParse base64ImageData of
        Inl e \<Rightarrow> Inr \<lparr>isCheating = False,
                        reason = ''AI analysis failed. Check console for details.''\<rparr>
      | Inr result \<Rightarrow> Inr result)"

subsection \<open>streamDetailedExaminerFeedback\<close>

text \<open>Substring search: \<open>includes\<close>, \<open>split(tag)[0]\<close> and the text after a tag.\<close>

fun str_includes :: "string \<Rightarrow> string \<Rightarrow> bool" where
  "str_includes [] tag = (tag = [])"
| "str_includes (c # cs) tag = (prefix tag (c # cs) \<or> str_includes cs tag)"

fun beforeFirst :: "string \<Rightarrow> string \<Rightarrow> string" where
  "beforeFirst [] tag = []"
| "beforeFirst (c # cs) tag = (if prefix tag (c # cs) then [] else c # beforeFirst cs tag)"

fun afterFirst :: "string \<Rightarrow> string \<Rightarrow> string option" where
  "afterFirst [] tag = (if tag = [] then Some [] else None)"
| "afterFirst (c # cs) tag =
     (if prefix tag (c # cs) then Some (drop (length tag) (c # cs)) else afterFirst cs tag)"

definition scoreStartTag :: string where
  "scoreStartTag = ''SCORE_JSON_START''"

definition scoreEndTag :: string where
  "scoreEndTag = ''SCORE_JSON_END''"

text \<open>
  The response stream of the backend: the \<open>text\<close> of each chunk in order (empty for
  a chunk without text) and how the iteration ends. A request that is rejected
  outright is \<open>([], StreamError)\<close>.
\<close>

datatype stream_end = EndOfStream | StreamError

type_synonym response_stream = "string list \<times> stream_end"

record stream_vars =
  fullResponseText :: string
  feedbackSoFar :: string
  onChunkCalls :: "string list"

text \<open>The body of the \<open>for await\<close> loop; \<open>onChunk\<close> calls are recorded in order.\<close>

definition streamChunk :: "stream_vars \<Rightarrow> string \<Rightarrow> stream_vars" where
  "streamChunk v chunkText =
     (if chunkText = [] then v
      else
        let full = fullResponseText v @ chunkText
        in if str_includes full scoreStartTag then
             let feedbackPart = beforeFirst full scoreStartTag;
                 newChunkForUI = drop (length (feedbackSoFar v)) feedbackPart
             in v\<lparr>fullResponseText := full, feedbackSoFar := feedbackPart,
                  onChunkCalls := onChunkCalls v @ (if newChunkForUI \<noteq> [] then [newChunkForUI] else [])\<rparr>
           else
             v\<lparr>fullResponseText := full, feedbackSoFar := feedbackSoFar v @ chunkText,
               onChunkCalls := onChunkCalls v @ [chunkText]\<rparr>)"

text \<open>
  The match of \<open>/SCORE_JSON_START([\s\S]*?)SCORE_JSON_END/\<close>: the text between the
  first start tag and the first end tag after it. \<open>parseScore\<close> is \<open>JSON.parse\<close>
  read at type \<open>ScoreData\<close>, \<open>None\<close> when it throws.
\<close>

definition scoreMatch :: "string \<Rightarrow> string option" where
  "scoreMatch full =
     (case afterFirst full scoreStartTag of
        None \<Rightarrow> None
      | Some rest \<Rightarrow> if str_includes rest scoreEndTag then Some (beforeFirst rest scoreEndTag) else None)"

definition extractScore :: "(string \<Rightarrow> score_data option) \<Rightarrow> string \<Rightarrow> score_data option" where
  "extractScore parseScore full =
     (case scoreMatch full of
        None \<Rightarrow> None
      | Some captured \<Rightarrow> if captured \<noteq> [] then parseScore (trim captured) else None)"

record feedback_result =
  chunksDelivered :: "string list"
  feedbackText :: string
  scoreData' :: "score_data option"
  backendCalled :: bool

definition shortFeedback :: string where
  "shortFeedback = ''The interaction was too brief to provide detailed feedback.''"

definition errorMsg :: string where
  "errorMsg = ''Could not retrieve detailed examiner feedback due to an error.''"

text \<open>
  The function; \<open>chunksDelivered\<close> lists the arguments of its \<open>onChunk\<close> calls in
  order and \<open>backendCalled\<close> says whether \<open>generateContentStream\<close> was invoked.
\<close>

definition streamDetailedExaminerFeedback ::
  "(string \<Rightarrow> score_data option) \<Rightarrow> response_stream \<Rightarrow> transcript_entry list
     \<Rightarrow> feedback_result" where
  "streamDetailedExaminerFeedback parseScore responseStream transcript =
     (if length transcript < 2 then
        \<lparr>chunksDelivered = [shortFeedback], feedbackText = shortFeedback,
         scoreData' = None, backendCalled = False\<rparr>
      else
        let v = foldl streamChunk
                  \<lparr>fullResponseText = [], feedbackSoFar = [], onChunkCalls = []\<rparr>
                  (fst responseStream)
        in case snd responseStream of
             StreamError \<Rightarrow>
               \<lparr>chunksDelivered = onChunkCalls v @ [errorMsg], feedbackText = errorMsg,
                scoreData' = None, backendCalled = True\<rparr>
           | EndOfStream \<Rightarrow>
               \<lparr>chunksDelivered = onChunkCalls v, feedbackText = trim (feedbackSoFar v),
                scoreData' = extractScore parseScore (fullResponseText v),
                backendCalled = True\<rparr>)"

section \<open>The exam session (WebcamProctor component)\<close>

subsection \<open>State\<close>

datatype phase = Initializing | Ready | InProgress | Feedback | QA | Ended

text \<open>
  What a pending \<open>setTimeout\<close> of the component does when it fires: the two
  callbacks of the silence watchdog, the callback that hides the unclear-audio
  notice, and the reconnection callback.
\<close>

datatype callback = ShowSilenceWarning | SilenceExpired | HideUnclearAudio | Reconnect

text \<open>A pending timer: its id, the time in milliseconds at which it is due, its callback.\<close>

type_synonym timer = "nat \<times> nat \<times> callback"

text \<open>
  The hooks and refs of the component, the two closure variables \<open>currentInput\<close>
  and \<open>currentOutput\<close> of the open patient connection, and the timers of the
  runtime. \<open>examState\<close> also stands for \<open>examStateRef\<close>, and \<open>transcripts\<close>
  for \<open>transcriptsRef\<close>, which an effect copies from the state after each render.
  \<open>sessionClosed\<close> records that \<open>close()\<close> was called on the session of
  \<open>sessionPromiseRef\<close>. Timer ids are handed out in increasing order from 1, so
  a ref holds a timer id exactly when it is truthy.
\<close>

record session =
  status :: string
  examState :: phase
  transcripts :: "transcript_entry list"
  currentStudentTranscript :: string
  currentSpTranscript :: string
  examinerFeedback :: string
  scoreData :: "score_data option"
  isScoreVerified :: bool
  isEditingScores :: bool
  editedScoreData :: "score_data option"
  isExaminerSpeaking :: bool
  unclearAudioWarning :: bool
  silenceWarningVisible :: bool
  reconnectionAttemptRef :: nat
  silenceTimerRef :: "nat option"
  warningTimerRef :: "nat option"
  currentInput :: string
  currentOutput :: string
  sessionClosed :: bool
  pendingTimers :: "timer list"
  nextTimerId :: nat

definition initialSession :: session where
  "initialSession = \<lparr>status = ''Initializing...'', examState = Initializing, transcripts = [],
     currentStudentTranscript = [], currentSpTranscript = [],
     examinerFeedback = ''No feedback at this time.'', scoreData = None,
     isScoreVerified = False, isEditingScores = False, editedScoreData = None,
     isExaminerSpeaking = False, unclearAudioWarning = False, silenceWarningVisible = False,
     reconnectionAttemptRef = 0, silenceTimerRef = None, warningTimerRef = None,
     currentInput = [], currentOutput = [], sessionClosed = False,
     pendingTimers = [], nextTimerId = 1\<rparr>"

subsection \<open>Timers of the runtime\<close>

text \<open>\<open>setTimeout\<close> at time \<open>now\<close>: returns the new id and the state with the timer pending.\<close>

definition setTimeout :: "callback \<Rightarrow> nat \<Rightarrow> nat \<Rightarrow> session \<Rightarrow> nat \<times> session" where
  "setTimeout cb delay now s =
     (nextTimerId s,
      s\<lparr>pendingTimers := pendingTimers s @ [(nextTimerId s, now + delay, cb)],
        nextTimerId := nextTimerId s + 1\<rparr>)"

definition clearTimeout :: "nat \<Rightarrow> session \<Rightarrow> session" where
  "clearTimeout timerId s = s\<lparr>pendingTimers := filter (\<lambda>t. fst t \<noteq> timerId) (pendingTimers s)\<rparr>"

text \<open>\<open>if (ref.current) clearTimeout(ref.current)\<close>.\<close>

definition clearIfSet :: "nat option \<Rightarrow> session \<Rightarrow> session" where
  "clearIfSet r s = (case r of None \<Rightarrow> s | Some timerId \<Rightarrow> clearTimeout timerId s)"

subsection \<open>The silence watchdog and the start of the feedback phase\<close>

text \<open>
  \<open>triggerFeedbackPhase\<close> up to its first \<open>await\<close>: the guard, the cancelling of
  the watchdog, the phase change, the closing of the patient session and the
  placeholder entry.
\<close>

definition triggerFeedbackPhase :: "session \<Rightarrow> session" where
  "triggerFeedbackPhase s =
     (if examState s \<noteq> InProgress then s
      else
        let s1 = clearIfSet (silenceTimerRef s) s;
            s2 = clearIfSet (warningTimerRef s1) s1
        in s2\<lparr>silenceWarningVisible := False,
              examState := Feedback,
              status := ''Interaction complete. Generating feedback and scores...'',
              examinerFeedback := [],
              sessionClosed := True,
              transcripts := transcripts s2 @ [\<lparr>role = Examiner, text' = ''...''\<rparr>]\<rparr>)"

definition resetSilenceTimer :: "nat \<Rightarrow> session \<Rightarrow> session" where
  "resetSilenceTimer now s =
     (let s1 = clearIfSet (warningTimerRef s) s;
          s2 = clearIfSet (silenceTimerRef s1) s1;
          s3 = s2\<lparr>silenceWarningVisible := False\<rparr>
      in if examState s3 = InProgress then
           let (w, s4) = setTimeout ShowSilenceWarning 15000 now s3;
               s5 = s4\<lparr>warningTimerRef := Some w\<rparr>;
               (t, s6) = setTimeout SilenceExpired 20000 now s5
           in s6\<lparr>silenceTimerRef := Some t\<rparr>
         else s3)"

subsection \<open>The patient connection\<close>

text \<open>\<open>connectToPatientSession\<close>: a new session with fresh closure variables.\<close>

definition connectToPatientSession :: "session \<Rightarrow> session" where
  "connectToPatientSession s = s\<lparr>currentInput := [], currentOutput := [], sessionClosed := False\<rparr>"

text \<open>
  A server message, as far as the transcript is concerned: the text of the input
  and of the output transcription when present, and the turn-complete flag. The
  audio payload only schedules playback and is left out.
\<close>

record server_message =
  inputTranscription :: "string option"
  outputTranscription :: "string option"
  turnComplete :: bool

definition onmessage :: "nat \<Rightarrow> server_message \<Rightarrow> session \<Rightarrow> session" where
  "onmessage now message s =
     (let s1 = (case inputTranscription message of
                  None \<Rightarrow> s | Some t \<Rightarrow> s\<lparr>currentInput := currentInput s @ t\<rparr>);
          s2 = (case outputTranscription message of
                  None \<Rightarrow> s1 | Some t \<Rightarrow> s1\<lparr>currentOutput := currentOutput s1 @ t\<rparr>);
          s3 = s2\<lparr>currentStudentTranscript := currentInput s2,
                  currentSpTranscript := currentOutput s2\<rparr>
      in if turnComplete message then
           let studentText = trim (currentInput s3);
               spText = trim (currentOutput s3);
               s4 = (if length studentText = 0 \<and> length spText = 0 \<and> length (currentInput s3) > 0
                     then snd (setTimeout HideUnclearAudio 3000 now (s3\<lparr>unclearAudioWarning := True\<rparr>))
                     else s3);
               newTranscripts =
                 (if studentText \<noteq> [] then [\<lparr>role = Student, text' = studentText\<rparr>] else [])
                 @ (if spText \<noteq> [] then [\<lparr>role = SP, text' = spText\<rparr>] else []);
               s5 = (if length newTranscripts > 0
                     then s4\<lparr>transcripts := transcripts s4 @ newTranscripts\<rparr> else s4);
               s6 = resetSilenceTimer now s5
           in s6\<lparr>currentInput := [], currentOutput := [],
                 currentStudentTranscript := [], currentSpTranscript := []\<rparr>
         else s3)"

definition onopen :: "session \<Rightarrow> session" where
  "onopen s = s\<lparr>status := ''Live session open.'', reconnectionAttemptRef := 0\<rparr>"

definition onerror :: "session \<Rightarrow> session" where
  "onerror s = s\<lparr>status := ''Connection error. Attempting to reconnect...''\<rparr>"

definition onclose :: "nat \<Rightarrow> session \<Rightarrow> session" where
  "onclose now s =
     (if examState s = InProgress then
        let s1 = s\<lparr>status := ''Connection closed. Reconnecting...''\<rparr>
        in if reconnectionAttemptRef s1 < 5
           then snd (setTimeout Reconnect (2000 * reconnectionAttemptRef s1) now s1)
           else s1\<lparr>status := ''Connection failed permanently. Please refresh.''\<rparr>
      else s\<lparr>status := ''Patient session closed.''\<rparr>)"

subsection \<open>Streaming the feedback\<close>

text \<open>
  The local variables of \<open>triggerFeedbackPhase\<close> after the placeholder is appended.
  \<open>playQueuedAudio\<close> is not awaited by its callers and itself awaits
  \<open>textToSpeech\<close>, so a call falls into two parts. \<open>speechRequests\<close> lists the
  texts for which \<open>textToSpeech\<close> was called, in call order; \<open>pendingSpeech\<close> holds
  the positions in that list of the calls whose synthesis has not resolved yet;
  \<open>audioQueue\<close> lists the segments whose playback has been pushed on the queue,
  each chained on the one before, so it is also the order of playback.
\<close>

record feedback_vars =
  fullFeedbackText :: string
  textBuffer :: string
  speechRequests :: "string list"
  pendingSpeech :: "nat list"
  audioQueue :: "string list"

text \<open>\<open>playQueuedAudio\<close> up to its \<open>await\<close>.\<close>

definition playQueuedAudio :: "string \<Rightarrow> feedback_vars \<Rightarrow> feedback_vars" where
  "playQueuedAudio textToSpeak v =
     (if trim textToSpeak = [] then v
      else v\<lparr>speechRequests := speechRequests v @ [textToSpeak],
             pendingSpeech := pendingSpeech v @ [length (speechRequests v)]\<rparr>)"

text \<open>
  The rest of \<open>playQueuedAudio\<close> for call number \<open>fst r\<close>, when its \<open>textToSpeech\<close>
  resolves to \<open>snd r\<close> (\<open>None\<close> for \<open>null\<close>): the playback is pushed on the queue
  when audio came back.
\<close>

definition speechSynthesized :: "feedback_vars \<Rightarrow> nat \<times> string option \<Rightarrow> feedback_vars" where
  "speechSynthesized v r =
     (if fst r \<in> set (pendingSpeech v) then
        let v1 = v\<lparr>pendingSpeech := removeAll (fst r) (pendingSpeech v)\<rparr>
        in (case snd r of
              None \<Rightarrow> v1
            | Some audioData \<Rightarrow>
                if audioData \<noteq> []
                then v1\<lparr>audioQueue := audioQueue v1 @ [speechRequests v1 ! fst r]\<rparr>
                else v1)
      else v)"

definition punctuation :: "char list" where
  "punctuation = [CHR ''.'', CHR ''?'', CHR ''!'', CHR 0x0A]"

fun findIndex :: "('a \<Rightarrow> bool) \<Rightarrow> 'a list \<Rightarrow> nat option" where
  "findIndex p [] = None"
| "findIndex p (x # xs) =
     (if p x then Some 0 else (case findIndex p xs of None \<Rightarrow> None | Some i \<Rightarrow> Some (i + 1)))"

lemma findIndex_less: "findIndex p xs = Some i \<Longrightarrow> i < length xs"
  by (induction xs arbitrary: i) (auto split: if_splits option.splits)

text \<open>The \<open>while (true)\<close> loop of \<open>processTextForSpeech\<close>.\<close>

function sentenceLoop :: "feedback_vars \<Rightarrow> feedback_vars" where
  "sentenceLoop v =
     (case findIndex (\<lambda>c. c \<in> set punctuation) (textBuffer v) of
        None \<Rightarrow> v
      | Some firstPunctuationIndex \<Rightarrow>
          let sentence = take (firstPunctuationIndex + 1) (textBuffer v);
              v1 = v\<lparr>textBuffer := drop (firstPunctuationIndex + 1) (textBuffer v)\<rparr>
          in sentenceLoop (if trim sentence \<noteq> [] then playQueuedAudio sentence v1 else v1))"
  by pat_completeness auto
termination
  by (relation "measure (\<lambda>v. length (textBuffer v))")
     (auto simp: playQueuedAudio_def dest: findIndex_less)

declare sentenceLoop.simps [simp del]

definition processTextForSpeech :: "bool \<Rightarrow> feedback_vars \<Rightarrow> feedback_vars" where
  "processTextForSpeech isLastChunk v =
     (let v1 = sentenceLoop v
      in if isLastChunk \<and> trim (textBuffer v1) \<noteq> []
         then (playQueuedAudio (textBuffer v1) v1)\<lparr>textBuffer := []\<rparr>
         else v1)"

text \<open>
  The updater both \<open>setTranscripts\<close> calls of the streaming use: the text of the
  last entry is rewritten when that entry is the examiner's.
\<close>

definition rewriteLastExaminer :: "string \<Rightarrow> transcript_entry list \<Rightarrow> transcript_entry list" where
  "rewriteLastExaminer newText prev =
     (if length prev > 0 \<and> role (prev ! (length prev - 1)) = Examiner
      then prev[length prev - 1 := (prev ! (length prev - 1))\<lparr>text' := newText\<rparr>]
      else prev)"

definition onChunkReceived :: "feedback_vars \<times> session \<Rightarrow> string \<Rightarrow> feedback_vars \<times> session" where
  "onChunkReceived vs textChunk =
     (let v1 = (fst vs)\<lparr>fullFeedbackText := fullFeedbackText (fst vs) @ textChunk\<rparr>;
          s1 = (snd vs)\<lparr>examinerFeedback := fullFeedbackText v1\<rparr>;
          s2 = s1\<lparr>transcripts := rewriteLastExaminer (fullFeedbackText v1) (transcripts s1)\<rparr>;
          v2 = v1\<lparr>textBuffer := textBuffer v1 @ textChunk\<rparr>
      in (processTextForSpeech False v2, s2))"

text \<open>
  The \<open>onChunk\<close> calls of the service in order. Syntheses may resolve while the
  stream runs: \<open>resolved\<close> gives, for each chunk, the syntheses that resolve after
  it is received and before the next event, in the order in which they resolve.
\<close>

fun deliver ::
  "feedback_vars \<times> session \<Rightarrow> string list \<Rightarrow> (nat \<times> string option) list list
     \<Rightarrow> feedback_vars \<times> session" where
  "deliver vs [] resolved = vs"
| "deliver vs (textChunk # chunks) resolved =
     (let vs1 = onChunkReceived vs textChunk;
          vs2 = (foldl speechSynthesized (fst vs1) (case resolved of [] \<Rightarrow> [] | r # _ \<Rightarrow> r),
                 snd vs1)
      in deliver vs2 chunks (tl resolved))"

text \<open>
  The rest of \<open>triggerFeedbackPhase\<close>, from the call of the service on, run without
  another event of the session in between. \<open>entryTranscript\<close> is the transcript the
  ref held when the function was entered (the placeholder is not in it yet) and
  \<open>s0\<close> the session after the first part. After the stream the result is stored and
  the rest of the text is flushed; \<open>Promise.all\<close> then waits for the playbacks that
  are on the queue at that moment, and the phase moves on to the question round, for
  which \<open>connectToExaminerQASession\<close> puts a new open session into
  \<open>sessionPromiseRef\<close>. \<open>late\<close> lists the syntheses that resolve after the flush.
\<close>

definition feedbackStreaming ::
  "(string \<Rightarrow> score_data option) \<Rightarrow> response_stream \<Rightarrow> transcript_entry list
     \<Rightarrow> (nat \<times> string option) list list \<Rightarrow> (nat \<times> string option) list \<Rightarrow> session
     \<Rightarrow> feedback_vars \<times> session" where
  "feedbackStreaming parseScore responseStream entryTranscript resolved late s0 =
     (let v0 = \<lparr>fullFeedbackText = [], textBuffer = [], speechRequests = [],
                pendingSpeech = [], audioQueue = []\<rparr>;
          r = streamDetailedExaminerFeedback parseScore responseStream entryTranscript;
          (v1, s1) = deliver (v0, s0) (chunksDelivered r) resolved;
          s2 = s1\<lparr>examinerFeedback := feedbackText r,
                  transcripts := rewriteLastExaminer (feedbackText r) (transcripts s1),
                  scoreData := scoreData' r\<rparr>;
          v2 = processTextForSpeech True v1;
          v3 = foldl speechSynthesized v2 late
      in (v3, s2\<lparr>isExaminerSpeaking := False, examState := QA, sessionClosed := False\<rparr>))"

text \<open>The whole of \<open>triggerFeedbackPhase\<close> on a session, both parts in one go.\<close>

definition feedbackPhase ::
  "(string \<Rightarrow> score_data option) \<Rightarrow> response_stream
     \<Rightarrow> (nat \<times> string option) list list \<Rightarrow> (nat \<times> string option) list \<Rightarrow> session
     \<Rightarrow> feedback_vars \<times> session" where
  "feedbackPhase parseScore responseStream resolved late s =
     (if examState s \<noteq> InProgress
      then (\<lparr>fullFeedbackText = [], textBuffer = [], speechRequests = [],
             pendingSpeech = [], audioQueue = []\<rparr>, s)
      else feedbackStreaming parseScore responseStream (transcripts s) resolved late
             (triggerFeedbackPhase s))"

text \<open>
  What one call of \<open>triggerFeedbackPhase\<close> has done when the task that made the call
  ends. With at least two entries in the transcript the function then waits for the
  backend. With fewer the service answers without calling the backend (so no backend
  is named here), no synthesis has resolved and the queue is empty, so nothing is
  waited for and the function has run to its end.
\<close>

definition triggerFeedbackPhase_task :: "session \<Rightarrow> session" where
  "triggerFeedbackPhase_task s =
     (if examState s \<noteq> InProgress then s
      else if length (transcripts s) < 2
      then snd (feedbackStreaming (\<lambda>t. None) ([], EndOfStream) (transcripts s) [] []
                  (triggerFeedbackPhase s))
      else triggerFeedbackPhase s)"

subsection \<open>Firing timers\<close>

fun fire :: "callback \<Rightarrow> session \<Rightarrow> session" where
  "fire ShowSilenceWarning s = s\<lparr>silenceWarningVisible := True\<rparr>"
| "fire SilenceExpired s = triggerFeedbackPhase_task (s\<lparr>silenceWarningVisible := False\<rparr>)"
| "fire HideUnclearAudio s = s\<lparr>unclearAudioWarning := False\<rparr>"
| "fire Reconnect s =
     connectToPatientSession (s\<lparr>reconnectionAttemptRef := reconnectionAttemptRef s + 1\<rparr>)"

text \<open>
  The timer the runtime runs next at time \<open>now\<close>: among the pending timers that are
  due, the one due first, and of those due at the same time the one set first.
\<close>

fun earliest :: "timer \<Rightarrow> timer list \<Rightarrow> timer" where
  "earliest m [] = m"
| "earliest m (t # ts) = earliest (if fst (snd t) < fst (snd m) then t else m) ts"

definition nextDue :: "nat \<Rightarrow> timer list \<Rightarrow> timer option" where
  "nextDue now ts =
     (case filter (\<lambda>t. fst (snd t) \<le> now) ts of
        [] \<Rightarrow> None
      | t # rest \<Rightarrow> Some (earliest t rest))"

text \<open>One expiry: the timer leaves the pending list and its callback runs.\<close>

definition expire :: "timer \<Rightarrow> session \<Rightarrow> session" where
  "expire t s = fire (snd (snd t)) (clearTimeout (fst t) s)"

subsection \<open>Start and end of the exam\<close>

text \<open>
  \<open>handleStartExam\<close> up to the greeting; \<open>audioReady\<close> stands for the guard on the
  audio context and the media source. When the greeting has played (or failed) the
  handler calls \<open>resetSilenceTimer\<close>.
\<close>

definition handleStartExam :: "bool \<Rightarrow> session \<Rightarrow> session" where
  "handleStartExam audioReady s =
     (if \<not> audioReady then s
      else s\<lparr>examState := InProgress, status := ''Connected. You may begin speaking.''\<rparr>)"

text \<open>
  The session when \<open>initializeExam\<close> has finished, and the session in which the exam
  was started and the greeting ended at time 0.
\<close>

definition readySession :: session where
  "readySession = initialSession\<lparr>status := ''Please press Ready to begin.'', examState := Ready,
     examinerFeedback := ''Welcome to the clinical exam. I will be observing. The patient will begin once you are ready.''\<rparr>"

definition startedSession :: session where
  "startedSession = resetSilenceTimer 0 (handleStartExam True readySession)"

definition handleEndExam :: "session \<Rightarrow> session" where
  "handleEndExam s =
     (let s1 = s\<lparr>examState := Ended, sessionClosed := True\<rparr>;
          s2 = clearIfSet (silenceTimerRef s1) s1
      in clearIfSet (warningTimerRef s2) s2)"

subsection \<open>Letting time pass\<close>

lemma earliest_mem: "earliest m ts \<in> set (m # ts)"
  by (induction ts arbitrary: m) auto

lemma nextDue_mem: "nextDue now ts = Some t \<Longrightarrow> t \<in> set ts"
proof -
  assume a: "nextDue now ts = Some t"
  then obtain d rest where f: "filter (\<lambda>t. fst (snd t) \<le> now) ts = d # rest"
    and t: "t = earliest d rest"
    by (auto simp: nextDue_def split: list.splits)
  have "t \<in> set (d # rest)" using t earliest_mem by simp
  then have "t \<in> set (filter (\<lambda>t. fst (snd t) \<le> now) ts)" using f by simp
  then show ?thesis by simp
qed

lemma clearIfSet_pending_length:
  "length (pendingTimers (clearIfSet r s)) \<le> length (pendingTimers s)"
  by (cases r) (simp_all add: clearIfSet_def clearTimeout_def)

lemma triggerFeedbackPhase_pending_length:
  "length (pendingTimers (triggerFeedbackPhase s)) \<le> length (pendingTimers s)"
proof -
  let ?s1 = "clearIfSet (silenceTimerRef s) s"
  have "length (pendingTimers (clearIfSet (warningTimerRef ?s1) ?s1)) \<le> length (pendingTimers ?s1)"
    by (rule clearIfSet_pending_length)
  also have "\<dots> \<le> length (pendingTimers s)"
    by (rule clearIfSet_pending_length)
  finally show ?thesis
    by (simp add: triggerFeedbackPhase_def Let_def)
qed

lemma deliver_pending: "pendingTimers (snd (deliver vs chunks resolved)) = pendingTimers (snd vs)"
  by (induction chunks arbitrary: vs resolved) (simp_all add: onChunkReceived_def Let_def)

lemma feedbackStreaming_pending:
  "pendingTimers (snd (feedbackStreaming parseScore responseStream entryTranscript resolved late s0))
     = pendingTimers s0"
  by (simp add: feedbackStreaming_def Let_def split_beta deliver_pending)

lemma fire_pending_length: "length (pendingTimers (fire cb s)) \<le> length (pendingTimers s)"
proof (cases cb)
  case SilenceExpired
  let ?x = "s\<lparr>silenceWarningVisible := False\<rparr>"
  have "length (pendingTimers (triggerFeedbackPhase ?x)) \<le> length (pendingTimers ?x)"
    by (rule triggerFeedbackPhase_pending_length)
  then have "length (pendingTimers (triggerFeedbackPhase_task ?x)) \<le> length (pendingTimers ?x)"
    by (simp add: triggerFeedbackPhase_task_def feedbackStreaming_pending)
  then show ?thesis using SilenceExpired by simp
qed (simp_all add: connectToPatientSession_def)

lemma expire_pending_length:
  assumes "t \<in> set (pendingTimers s)"
  shows "length (pendingTimers (expire t s)) < length (pendingTimers s)"
proof -
  have "length (pendingTimers (expire t s)) \<le> length (pendingTimers (clearTimeout (fst t) s))"
    unfolding expire_def by (rule fire_pending_length)
  also have "\<dots> < length (pendingTimers s)"
    using assms by (auto simp: clearTimeout_def intro!: length_filter_less)
  finally show ?thesis .
qed

text \<open>
  The runtime at time \<open>now\<close>: it runs the timers that are due, one after the other,
  until none is.
\<close>

function runTimers :: "nat \<Rightarrow> session \<Rightarrow> session" where
  "runTimers now s =
     (case nextDue now (pendingTimers s) of
        None \<Rightarrow> s
      | Some t \<Rightarrow> runTimers now (expire t s))"
  by pat_completeness auto
termination
  by (relation "measure (\<lambda>(now, s). length (pendingTimers s))")
     (auto dest: nextDue_mem intro: expire_pending_length)

declare runTimers.simps [simp del]

subsection \<open>The scorecard editor\<close>

datatype category = Rapport | HistoryTaking | Communication

definition handleEditScores :: "session \<Rightarrow> session" where
  "handleEditScores s = s\<lparr>editedScoreData := scoreData s, isEditingScores := True\<rparr>"

definition handleCancelEditScores :: "session \<Rightarrow> session" where
  "handleCancelEditScores s = s\<lparr>editedScoreData := None, isEditingScores := False\<rparr>"

definition handleSaveScores :: "session \<Rightarrow> session" where
  "handleSaveScores s =
     (let s1 = (case editedScoreData s of None \<Rightarrow> s | Some d \<Rightarrow> s\<lparr>scoreData := Some d\<rparr>)
      in s1\<lparr>isEditingScores := False, editedScoreData := None\<rparr>)"

text \<open>\<open>prevData[category]\<close>, and the object spread with the computed key.\<close>

fun categoryOf :: "category \<Rightarrow> score_data \<Rightarrow> score_category" where
  "categoryOf Rapport d = rapport d"
| "categoryOf HistoryTaking d = historyTaking d"
| "categoryOf Communication d = communication d"

fun withCategory :: "category \<Rightarrow> score_category \<Rightarrow> score_data \<Rightarrow> score_data" where
  "withCategory Rapport c d = d\<lparr>rapport := c\<rparr>"
| "withCategory HistoryTaking c d = d\<lparr>historyTaking := c\<rparr>"
| "withCategory Communication c d = d\<lparr>communication := c\<rparr>"

definition handleScoreChange :: "category \<Rightarrow> rat \<Rightarrow> session \<Rightarrow> session" where
  "handleScoreChange cat newScore s =
     s\<lparr>editedScoreData :=
         (case editedScoreData s of
            None \<Rightarrow> None
          | Some prevData \<Rightarrow>
              let newData = withCategory cat ((categoryOf cat prevData)\<lparr>score := newScore\<rparr>) prevData;
                  scores = [score (rapport newData), score (historyTaking newData),
                            score (communication newData)]
              in Some (newData\<lparr>overallScore := foldl (+) 0 scores / of_nat (length scores)\<rparr>))\<rparr>"

text \<open>The click handler of star \<open>i\<close> (\<open>i\<close> from 0 to 4) of a category while editing.\<close>

definition starClick :: "category \<Rightarrow> nat \<Rightarrow> session \<Rightarrow> session" where
  "starClick cat i s = handleScoreChange cat (of_nat i + 1) s"

text \<open>A sequence of edits of the draft.\<close>

definition applyEdits :: "session \<Rightarrow> (category \<times> rat) list \<Rightarrow> session" where
  "applyEdits s edits = foldl (\<lambda>s e. handleScoreChange (fst e) (snd e) s) s edits"

text \<open>
  In the words of the specification: the arithmetic mean of the three category
  scores, and a number rounded to one decimal place.
\<close>

definition categoryMean :: "score_data \<Rightarrow> rat" where
  "categoryMean d = (score (rapport d) + score (historyTaking d) + score (communication d)) / 3"

definition roundOneDecimal :: "rat \<Rightarrow> rat" where
  "roundOneDecimal x = of_int (round (x * 10)) / 10"

section \<open>Properties of the warning accumulator\<close>

text \<open>Two results of the classifier.\<close>

definition allClear :: proctoring_result where
  "allClear = \<lparr>isCheating = False, reason = ''All clear''\<rparr>"

definition phoneSeen :: proctoring_result where
  "phoneSeen = \<lparr>isCheating = True, reason = ''Possible use of a mobile phone detected.''\<rparr>"

subsection \<open>Calls made with the callback of the current render\<close>

text \<open>
  The two calls of the accumulator's contract, each made with the callback of the
  current render and followed by the render's effect.
\<close>

definition recordFullscreenExit :: "app \<Rightarrow> app" where
  "recordFullscreenExit a = totalWarningsEffect (handleFullscreenChange a False a)"

definition recordProctoringViolation :: "string \<Rightarrow> app \<Rightarrow> app" where
  "recordProctoringViolation why a = totalWarningsEffect (handleProctoringViolation a why a)"

datatype call = FullscreenExit | Violation string

fun applyCall :: "app \<Rightarrow> call \<Rightarrow> app" where
  "applyCall a FullscreenExit = recordFullscreenExit a"
| "applyCall a (Violation why) = recordProctoringViolation why a"

definition blockPolicy :: "app \<Rightarrow> bool" where
  "blockPolicy a \<longleftrightarrow>
     (isExamBlocked a \<longleftrightarrow> fullscreenWarnings a \<ge> 2 \<or> totalWarnings a \<ge> 5)"

lemma blockPolicy_call: "examStarted a \<Longrightarrow> blockPolicy a \<Longrightarrow> blockPolicy (applyCall a c)"
  by (cases c)
     (auto simp: blockPolicy_def recordFullscreenExit_def recordProctoringViolation_def
        totalWarningsEffect_def totalWarnings_def handleFullscreenChange_def
        handleProctoringViolation_def showWarning_def Let_def)

lemma examStarted_call: "examStarted (applyCall a c) = examStarted a"
  by (cases c)
     (simp_all add: recordFullscreenExit_def recordProctoringViolation_def
        totalWarningsEffect_def handleFullscreenChange_def handleProctoringViolation_def
        showWarning_def Let_def)

text \<open>
  With current callbacks the policy of the claim holds after every sequence of calls on
  a started exam, a call on an unblocked exam adds exactly one to its own counter, and
  a call on a blocked exam changes nothing.
\<close>

lemma current_calls_policy:
  "blockPolicy (foldl applyCall (handleStartExam_App initialApp) calls)"
proof -
  have "examStarted a \<Longrightarrow> blockPolicy a \<Longrightarrow> blockPolicy (foldl applyCall a calls)" for a
    by (induction calls arbitrary: a) (simp_all add: blockPolicy_call examStarted_call)
  then show ?thesis
    by (simp add: handleStartExam_App_def initialApp_def blockPolicy_def totalWarnings_def)
qed

lemma current_call_counts:
  assumes "examStarted a" and "\<not> isExamBlocked a"
  shows "fullscreenWarnings (recordFullscreenExit a) = fullscreenWarnings a + 1"
    and "proctoringWarnings (recordFullscreenExit a) = proctoringWarnings a"
    and "proctoringWarnings (recordProctoringViolation why a) = proctoringWarnings a + 1"
    and "fullscreenWarnings (recordProctoringViolation why a) = fullscreenWarnings a"
  using assms
  by (simp_all add: recordFullscreenExit_def recordProctoringViolation_def
        totalWarningsEffect_def handleFullscreenChange_def handleProctoringViolation_def
        showWarning_def Let_def)

lemma blocked_call_noop: "isExamBlocked a \<Longrightarrow> applyCall a c = a"
  by (cases c)
     (simp_all add: recordFullscreenExit_def recordProctoringViolation_def
        totalWarningsEffect_def handleFullscreenChange_def handleProctoringViolation_def)

subsection \<open>Polls answered late\<close>

text \<open>On the page a block is never taken back, whatever the events and their order.\<close>

lemma blocked_pageStep:
  "isExamBlocked (appState e) \<Longrightarrow> isExamBlocked (appState (pageStep e ev))"
  by (cases ev)
     (simp_all add: pageStep_def totalWarningsEffect_def handleStartExam_App_def
        handleFullscreenChange_def handleProctoringViolation_def showWarning_def
        runProctoringCheck_begin_def runProctoringCheck_resume_def Let_def)

lemma blocked_pageRun:
  "isExamBlocked (appState e) \<Longrightarrow> isExamBlocked (appState (pageRun e evs))"
  unfolding pageRun_def
  by (induction evs arbitrary: e) (simp_all add: blocked_pageStep)

text \<open>
  The exam starts, the student leaves fullscreen, a poll starts, the student leaves
  fullscreen again.
\<close>

definition blockedWithPoll :: "page_event list" where
  "blockedWithPoll = [StartExam, FullscreenChange False, PollStarts True, FullscreenChange False]"

text \<open>
  Claim C1, where the code departs from it. After \<open>blockedWithPoll\<close> the exam is
  blocked with two fullscreen exits and no proctoring violation, and one poll is still
  in flight. When that poll is answered with a flagged result it calls the callback of
  the render in which it started, which saw the exam unblocked and no violation: the
  violation is counted after the block and the proctoring counter becomes 1, where
  the claim has the counters frozen. In the same way two polls in flight on a started
  exam that are both answered with a flagged result count as one violation.
\<close>

theorem stale_violation_counted_after_block:
  "isExamBlocked (appState (pageRun initialPage blockedWithPoll))
   \<and> fullscreenWarnings (appState (pageRun initialPage blockedWithPoll)) = 2
   \<and> proctoringWarnings (appState (pageRun initialPage blockedWithPoll)) = 0
   \<and> proctoringWarnings (appState (pageRun initialPage
        (blockedWithPoll @ [PollAnswers 0 phoneSeen]))) = 1
   \<and> isExamBlocked (appState (pageRun initialPage
        (blockedWithPoll @ [PollAnswers 0 phoneSeen])))
   \<and> proctoringWarnings (appState (pageRun initialPage
        [StartExam, PollStarts True, PollStarts True,
         PollAnswers 0 phoneSeen, PollAnswers 0 phoneSeen])) = 1"
  by code_simp

section \<open>Properties of the lobby pre-check\<close>

lemma lobbyFeed_snoc:
  "lobbyFeed l (rs @ [r]) = runProctoringCheck_Lobby True r (lobbyFeed l rs)"
  by (simp add: lobbyFeed_def)

lemma adjacent_snoc:
  "(\<exists>i. Suc i < length (rs @ [r]) \<and> P ((rs @ [r]) ! i) \<and> P ((rs @ [r]) ! Suc i))
   \<longleftrightarrow> (\<exists>i. Suc i < length rs \<and> P (rs ! i) \<and> P (rs ! Suc i)) \<or> (rs \<noteq> [] \<and> P (last rs) \<and> P r)"
  (is "?L \<longleftrightarrow> ?A \<or> ?B")
proof
  assume ?L
  then obtain i where i: "Suc i < length (rs @ [r])" "P ((rs @ [r]) ! i)" "P ((rs @ [r]) ! Suc i)"
    by blast
  show "?A \<or> ?B"
  proof (cases "Suc i < length rs")
    case True
    then show ?thesis using i by (auto simp: nth_append)
  next
    case False
    then have e: "Suc i = length rs" using i(1) by simp
    then have "rs \<noteq> []" by auto
    moreover have "i = length rs - 1" "i < length rs" using e by simp_all
    then have "P (last rs)" using i(2) \<open>rs \<noteq> []\<close> by (simp add: nth_append last_conv_nth)
    moreover have "P r" using i(3) e by (simp add: nth_append)
    ultimately show ?thesis by blast
  qed
next
  assume "?A \<or> ?B"
  then show ?L
  proof
    assume ?A
    then obtain i where "Suc i < length rs" "P (rs ! i)" "P (rs ! Suc i)" by blast
    then have "Suc i < length (rs @ [r]) \<and> P ((rs @ [r]) ! i) \<and> P ((rs @ [r]) ! Suc i)"
      by (simp add: nth_append)
    then show ?L by blast
  next
    assume b: ?B
    then obtain n where n: "length rs = Suc n" by (cases rs) auto
    have "last rs = rs ! n"
      using b n by (simp add: last_conv_nth)
    then have "Suc n < length (rs @ [r]) \<and> P ((rs @ [r]) ! n) \<and> P ((rs @ [r]) ! Suc n)"
      using b n by (simp add: nth_append)
    then show ?L by blast
  qed
qed

definition lobbyInv :: "proctoring_result list \<Rightarrow> lobby \<Rightarrow> bool" where
  "lobbyInv rs l \<longleftrightarrow>
     clearChecks l = length (takeWhile cleanResult (rev rs))
     \<and> (proctoringPassed l \<longleftrightarrow>
          (\<exists>i. Suc i < length rs \<and> cleanResult (rs ! i) \<and> cleanResult (rs ! Suc i)))"

lemma trailing_clean_pos:
  "takeWhile P (rev rs) \<noteq> [] \<longleftrightarrow> rs \<noteq> [] \<and> P (last rs)"
  by (cases rs rule: rev_cases) auto

lemma lobbyInv_snoc:
  assumes "lobbyInv rs l"
  shows "lobbyInv (rs @ [r]) (runProctoringCheck_Lobby True r l)"
proof (cases "cleanResult r")
  case True
  have c: "clearChecks (runProctoringCheck_Lobby True r l) = Suc (clearChecks l)"
    using True by (simp add: runProctoringCheck_Lobby_def cleanResult_def Let_def)
  have p: "proctoringPassed (runProctoringCheck_Lobby True r l) \<longleftrightarrow>
             proctoringPassed l \<or> 0 < clearChecks l"
    using True by (auto simp: runProctoringCheck_Lobby_def cleanResult_def Let_def)
  show ?thesis
    unfolding lobbyInv_def adjacent_snoc
    using assms True c p
    by (simp add: lobbyInv_def trailing_clean_pos)
next
  case False
  have c: "clearChecks (runProctoringCheck_Lobby True r l) = 0"
    using False by (auto simp: runProctoringCheck_Lobby_def cleanResult_def Let_def)
  have p: "proctoringPassed (runProctoringCheck_Lobby True r l) \<longleftrightarrow> proctoringPassed l"
    using False by (auto simp: runProctoringCheck_Lobby_def cleanResult_def Let_def)
  show ?thesis
    unfolding lobbyInv_def adjacent_snoc
    using assms False c p
    by (simp add: lobbyInv_def)
qed

lemma lobbyInv_feed:
  "clearChecks l = 0 \<Longrightarrow> \<not> proctoringPassed l \<Longrightarrow> lobbyInv rs (lobbyFeed l rs)"
proof (induction rs rule: rev_induct)
  case Nil
  then show ?case by (simp add: lobbyInv_def lobbyFeed_def)
next
  case (snoc r rs)
  then show ?case by (simp add: lobbyFeed_snoc lobbyInv_snoc)
qed

text \<open>
  Claim C3. In the lobby check a result is clean when it is not flagged and its reason
  is "All clear". Any result whose reason is not "All clear" puts the counter of
  consecutive clean results back to 0; after any sequence of results the counter is the
  length of the clean run at the end of the sequence; and the check has passed exactly
  when two clean results in a row occurred in the sequence. So clean, not clean, clean
  does not pass.
\<close>

theorem lobby_two_consecutive_clean:
  "(reason r \<noteq> ''All clear'' \<longrightarrow> clearChecks (runProctoringCheck_Lobby True r l) = 0)
   \<and> clearChecks (lobbyFeed (startSetup True initialLobby) rs)
       = length (takeWhile cleanResult (rev rs))
   \<and> (proctoringPassed (lobbyFeed (startSetup True initialLobby) rs) \<longleftrightarrow>
        (\<exists>i. Suc i < length rs \<and> cleanResult (rs ! i) \<and> cleanResult (rs ! Suc i)))
   \<and> (cleanResult c \<and> \<not> cleanResult d \<longrightarrow>
        \<not> proctoringPassed (lobbyFeed (startSetup True initialLobby) [c, d, c]))"
proof -
  have reset: "reason r \<noteq> ''All clear'' \<longrightarrow> clearChecks (runProctoringCheck_Lobby True r l) = 0"
    by (simp add: runProctoringCheck_Lobby_def Let_def)
  have start: "clearChecks (startSetup True initialLobby) = 0"
    "\<not> proctoringPassed (startSetup True initialLobby)"
    by (simp_all add: startSetup_def initialLobby_def)
  have inv: "lobbyInv xs (lobbyFeed (startSetup True initialLobby) xs)" for xs
    using start by (rule lobbyInv_feed)
  have count: "clearChecks (lobbyFeed (startSetup True initialLobby) rs)
       = length (takeWhile cleanResult (rev rs))"
    using inv [of rs] by (simp add: lobbyInv_def)
  have pass: "proctoringPassed (lobbyFeed (startSetup True initialLobby) rs) \<longleftrightarrow>
        (\<exists>i. Suc i < length rs \<and> cleanResult (rs ! i) \<and> cleanResult (rs ! Suc i))"
    using inv [of rs] by (simp add: lobbyInv_def)
  have three: "cleanResult c \<and> \<not> cleanResult d \<longrightarrow>
        \<not> proctoringPassed (lobbyFeed (startSetup True initialLobby) [c, d, c])"
    by (simp add: lobbyFeed_def runProctoringCheck_Lobby_def cleanResult_def Let_def
          startSetup_def initialLobby_def)
  from reset count pass three show ?thesis by blast
qed

theorem lobby_two_consecutive_clean_witness:
  "reason phoneSeen \<noteq> ''All clear''
   \<and> clearChecks (runProctoringCheck_Lobby True phoneSeen
        (lobbyFeed (startSetup True initialLobby) [allClear])) = 0
   \<and> cleanResult allClear \<and> \<not> cleanResult phoneSeen
   \<and> \<not> proctoringPassed (lobbyFeed (startSetup True initialLobby) [allClear, phoneSeen, allClear])
   \<and> proctoringPassed (lobbyFeed (startSetup True initialLobby) [allClear, phoneSeen, allClear, allClear])"
proof -
  have r: "reason phoneSeen \<noteq> ''All clear''"
    by (simp add: phoneSeen_def)
  have c: "cleanResult allClear" "\<not> cleanResult phoneSeen"
    by (simp_all add: cleanResult_def allClear_def phoneSeen_def)
  have p: "Suc 2 < length [allClear, phoneSeen, allClear, allClear]
      \<and> cleanResult ([allClear, phoneSeen, allClear, allClear] ! 2)
      \<and> cleanResult ([allClear, phoneSeen, allClear, allClear] ! Suc 2)"
    using c by (simp add: numeral_2_eq_2)
  have a: "proctoringPassed (lobbyFeed (startSetup True initialLobby) [allClear, phoneSeen, allClear, allClear])"
    using lobby_two_consecutive_clean
      [of phoneSeen "lobbyFeed (startSetup True initialLobby) [allClear]"
          "[allClear, phoneSeen, allClear, allClear]" allClear phoneSeen] p
    by blast
  show ?thesis
    using r c a lobby_two_consecutive_clean
      [of phoneSeen "lobbyFeed (startSetup True initialLobby) [allClear]"
          "[allClear, phoneSeen, allClear]" allClear phoneSeen]
    by blast
qed

section \<open>Properties of the backend service\<close>

text \<open>
  Claim C7. For every image, every behaviour of the backend and every outcome of the
  JSON parse, \<open>analyzeStudentFrame\<close> returns a result and never an error; and whenever
  the classification fails (the request is rejected, the response has no text, or the
  text does not parse), the result is not flagged as cheating and carries the reason
  "AI analysis failed. Check console for details.".
\<close>

theorem analyzeStudentFrame_fails_open:
  "(\<exists>result. analyzeStudentFrame generateContent jsonParse img = Inr result)
   \<and> (analyzeStudentFrame_try generateContent jsonParse img = Inl e \<longrightarrow>
        analyzeStudentFrame generateContent jsonParse img
          = Inr \<lparr>isCheating = False, reason = ''AI analysis failed. Check console for details.''\<rparr>)
   \<and> ((\<exists>err. generateContent img = Inl err) \<or> generateContent img = Inr None
        \<or> (\<exists>t. generateContent img = Inr (Some t) \<and> jsonParse (trim t) = None) \<longrightarrow>
        (\<exists>err. analyzeStudentFrame_try generateContent jsonParse img = Inl err))"
proof -
  have total: "\<exists>result. analyzeStudentFrame generateContent jsonParse img = Inr result"
    by (cases "analyzeStudentFrame_try generateContent jsonParse img")
       (simp_all add: analyzeStudentFrame_def)
  have caught: "analyzeStudentFrame_try generateContent jsonParse img = Inl e \<longrightarrow>
        analyzeStudentFrame generateContent jsonParse img
          = Inr \<lparr>isCheating = False, reason = ''AI analysis failed. Check console for details.''\<rparr>"
    by (simp add: analyzeStudentFrame_def)
  have thrown: "(\<exists>err. generateContent img = Inl err) \<or> generateContent img = Inr None
        \<or> (\<exists>t. generateContent img = Inr (Some t) \<and> jsonParse (trim t) = None) \<longrightarrow>
        (\<exists>err. analyzeStudentFrame_try generateContent jsonParse img = Inl err)"
    by (auto simp: analyzeStudentFrame_try_def)
  from total caught thrown show ?thesis by blast
qed

theorem analyzeStudentFrame_fails_open_witness:
  "analyzeStudentFrame_try (\<lambda>img. Inl ApiFailure) (\<lambda>t. None) ''/9j/4AAQ'' = Inl ApiFailure
   \<and> analyzeStudentFrame (\<lambda>img. Inl ApiFailure) (\<lambda>t. None) ''/9j/4AAQ''
       = Inr \<lparr>isCheating = False, reason = ''AI analysis failed. Check console for details.''\<rparr>"
proof -
  have h: "analyzeStudentFrame_try (\<lambda>img. Inl ApiFailure) (\<lambda>t. None) ''/9j/4AAQ'' = Inl ApiFailure"
    by (simp add: analyzeStudentFrame_try_def)
  show ?thesis
    using h analyzeStudentFrame_fails_open
      [of "\<lambda>img. Inl ApiFailure" "\<lambda>t. None" "''/9j/4AAQ''" ApiFailure]
    by blast
qed

text \<open>
  Claim C10. For a transcript with fewer than two entries, whatever the backend would
  answer, \<open>streamDetailedExaminerFeedback\<close> does not call it: it calls \<open>onChunk\<close> once,
  with "The interaction was too brief to provide detailed feedback.", and returns that
  text as the feedback text together with no score data.
\<close>

theorem short_transcript_feedback:
  "length transcript < 2 \<Longrightarrow>
     streamDetailedExaminerFeedback parseScore responseStream transcript
       = \<lparr>chunksDelivered = [''The interaction was too brief to provide detailed feedback.''],
          feedbackText = ''The interaction was too brief to provide detailed feedback.'',
          scoreData' = None, backendCalled = False\<rparr>"
  by (simp add: streamDetailedExaminerFeedback_def shortFeedback_def)

theorem short_transcript_feedback_witness:
  "length [\<lparr>role = Student, text' = ''Hello''\<rparr>] < 2
   \<and> streamDetailedExaminerFeedback (\<lambda>t. None) ([''Alright, let us review.''], EndOfStream)
        [\<lparr>role = Student, text' = ''Hello''\<rparr>]
       = \<lparr>chunksDelivered = [''The interaction was too brief to provide detailed feedback.''],
          feedbackText = ''The interaction was too brief to provide detailed feedback.'',
          scoreData' = None, backendCalled = False\<rparr>"
proof -
  have h: "length [\<lparr>role = Student, text' = ''Hello''\<rparr>] < 2"
    by simp
  show ?thesis
    using h short_transcript_feedback
      [OF h, of "\<lambda>t. None" "([''Alright, let us review.''], EndOfStream)"]
    by simp
qed

section \<open>Properties of the exam session\<close>

subsection \<open>What the timer operations leave alone\<close>

lemma clearIfSet_fields [simp]:
  "transcripts (clearIfSet r s) = transcripts s"
  "examState (clearIfSet r s) = examState s"
  "silenceWarningVisible (clearIfSet r s) = silenceWarningVisible s"
  "silenceTimerRef (clearIfSet r s) = silenceTimerRef s"
  "warningTimerRef (clearIfSet r s) = warningTimerRef s"
  "nextTimerId (clearIfSet r s) = nextTimerId s"
  "currentInput (clearIfSet r s) = currentInput s"
  "currentOutput (clearIfSet r s) = currentOutput s"
  "reconnectionAttemptRef (clearIfSet r s) = reconnectionAttemptRef s"
  "status (clearIfSet r s) = status s"
  by (cases r; simp add: clearIfSet_def clearTimeout_def)+

lemma setTimeout_fields [simp]:
  "transcripts (snd (setTimeout cb d now s)) = transcripts s"
  "examState (snd (setTimeout cb d now s)) = examState s"
  "silenceWarningVisible (snd (setTimeout cb d now s)) = silenceWarningVisible s"
  "silenceTimerRef (snd (setTimeout cb d now s)) = silenceTimerRef s"
  "warningTimerRef (snd (setTimeout cb d now s)) = warningTimerRef s"
  "currentInput (snd (setTimeout cb d now s)) = currentInput s"
  "currentOutput (snd (setTimeout cb d now s)) = currentOutput s"
  "reconnectionAttemptRef (snd (setTimeout cb d now s)) = reconnectionAttemptRef s"
  "status (snd (setTimeout cb d now s)) = status s"
  "nextTimerId (snd (setTimeout cb d now s)) = nextTimerId s + 1"
  "fst (setTimeout cb d now s) = nextTimerId s"
  "pendingTimers (snd (setTimeout cb d now s)) = pendingTimers s @ [(nextTimerId s, now + d, cb)]"
  by (simp_all add: setTimeout_def)

lemma resetSilenceTimer_fields [simp]:
  "transcripts (resetSilenceTimer now s) = transcripts s"
  "examState (resetSilenceTimer now s) = examState s"
  "silenceWarningVisible (resetSilenceTimer now s) = False"
  "currentInput (resetSilenceTimer now s) = currentInput s"
  "currentOutput (resetSilenceTimer now s) = currentOutput s"
  "reconnectionAttemptRef (resetSilenceTimer now s) = reconnectionAttemptRef s"
  "status (resetSilenceTimer now s) = status s"
  by (simp_all add: resetSilenceTimer_def Let_def split_beta)

lemma trim_Nil [simp]: "trim [] = []"
  by (simp add: trim_def)

text \<open>
  Claim C5. When a turn-complete message arrives while the student buffer holds "Hello"
  and the patient buffer holds "Hi there" (in phase in-progress, and in any other), the
  transcript gains exactly the two entries Student "Hello" and SP "Hi there", in that
  order. After every turn-complete message both buffers and both partial transcripts
  are empty, and the transcript has gained, in the order student then patient, an entry
  for each side whose trimmed text is not empty, and none for a side whose trimmed text
  is empty.
\<close>

theorem turn_complete_finalizes_transcript:
  "transcripts (onmessage now \<lparr>inputTranscription = None, outputTranscription = None, turnComplete = True\<rparr>
       (s\<lparr>examState := InProgress, currentInput := ''Hello'', currentOutput := ''Hi there''\<rparr>))
     = transcripts s @ [\<lparr>role = Student, text' = ''Hello''\<rparr>, \<lparr>role = SP, text' = ''Hi there''\<rparr>]
   \<and> currentInput (onmessage now \<lparr>inputTranscription = i, outputTranscription = out, turnComplete = True\<rparr> s) = []
   \<and> currentOutput (onmessage now \<lparr>inputTranscription = i, outputTranscription = out, turnComplete = True\<rparr> s) = []
   \<and> currentStudentTranscript (onmessage now \<lparr>inputTranscription = i, outputTranscription = out, turnComplete = True\<rparr> s) = []
   \<and> currentSpTranscript (onmessage now \<lparr>inputTranscription = i, outputTranscription = out, turnComplete = True\<rparr> s) = []
   \<and> transcripts (onmessage now \<lparr>inputTranscription = i, outputTranscription = out, turnComplete = True\<rparr> s)
     = transcripts s
       @ (if trim (currentInput s @ (case i of None \<Rightarrow> [] | Some t \<Rightarrow> t)) = [] then []
          else [\<lparr>role = Student, text' = trim (currentInput s @ (case i of None \<Rightarrow> [] | Some t \<Rightarrow> t))\<rparr>])
       @ (if trim (currentOutput s @ (case out of None \<Rightarrow> [] | Some t \<Rightarrow> t)) = [] then []
          else [\<lparr>role = SP, text' = trim (currentOutput s @ (case out of None \<Rightarrow> [] | Some t \<Rightarrow> t))\<rparr>])"
proof -
  have hello: "trim ''Hello'' = ''Hello''" and hi: "trim ''Hi there'' = ''Hi there''"
    by (simp_all add: trim_def isWhiteSpace_def)
  have scenario: "transcripts (onmessage now \<lparr>inputTranscription = None, outputTranscription = None, turnComplete = True\<rparr>
       (s\<lparr>examState := InProgress, currentInput := ''Hello'', currentOutput := ''Hi there''\<rparr>))
     = transcripts s @ [\<lparr>role = Student, text' = ''Hello''\<rparr>, \<lparr>role = SP, text' = ''Hi there''\<rparr>]"
    by (simp add: onmessage_def Let_def hello hi)
  have buffers:
    "currentInput (onmessage now \<lparr>inputTranscription = i, outputTranscription = out, turnComplete = True\<rparr> s) = []"
    "currentOutput (onmessage now \<lparr>inputTranscription = i, outputTranscription = out, turnComplete = True\<rparr> s) = []"
    "currentStudentTranscript (onmessage now \<lparr>inputTranscription = i, outputTranscription = out, turnComplete = True\<rparr> s) = []"
    "currentSpTranscript (onmessage now \<lparr>inputTranscription = i, outputTranscription = out, turnComplete = True\<rparr> s) = []"
    by (simp_all add: onmessage_def Let_def)
  have general: "transcripts (onmessage now \<lparr>inputTranscription = i, outputTranscription = out, turnComplete = True\<rparr> s)
     = transcripts s
       @ (if trim (currentInput s @ (case i of None \<Rightarrow> [] | Some t \<Rightarrow> t)) = [] then []
          else [\<lparr>role = Student, text' = trim (currentInput s @ (case i of None \<Rightarrow> [] | Some t \<Rightarrow> t))\<rparr>])
       @ (if trim (currentOutput s @ (case out of None \<Rightarrow> [] | Some t \<Rightarrow> t)) = [] then []
          else [\<lparr>role = SP, text' = trim (currentOutput s @ (case out of None \<Rightarrow> [] | Some t \<Rightarrow> t))\<rparr>])"
    by (cases i; cases out) (simp_all add: onmessage_def Let_def)
  from scenario buffers general show ?thesis by blast
qed

theorem turn_complete_finalizes_transcript_witness:
  "transcripts (onmessage 4000 \<lparr>inputTranscription = None, outputTranscription = None, turnComplete = True\<rparr>
       (startedSession\<lparr>examState := InProgress, currentInput := ''Hello'', currentOutput := ''Hi there''\<rparr>))
     = [\<lparr>role = Student, text' = ''Hello''\<rparr>, \<lparr>role = SP, text' = ''Hi there''\<rparr>]
   \<and> transcripts (onmessage 9000 \<lparr>inputTranscription = Some '' '', outputTranscription = Some ''Mm. '', turnComplete = True\<rparr> startedSession)
     = [\<lparr>role = SP, text' = ''Mm.''\<rparr>]"
proof -
  have t: "transcripts startedSession = []"
    by (simp add: startedSession_def readySession_def initialSession_def handleStartExam_def)
  have b: "currentInput startedSession = []" "currentOutput startedSession = []"
    by (simp_all add: startedSession_def readySession_def initialSession_def handleStartExam_def)
  have w: "trim '' '' = []" "trim ''Mm. '' = ''Mm.''"
    by (simp_all add: trim_def isWhiteSpace_def)
  show ?thesis
    using t b w turn_complete_finalizes_transcript [of 4000 startedSession "Some '' ''" "Some ''Mm. ''"]
      turn_complete_finalizes_transcript [of 9000 startedSession "Some '' ''" "Some ''Mm. ''"]
    by simp
qed

subsection \<open>Reconnection\<close>

text \<open>
  One failed attempt: the connection closes at time \<open>now\<close> and, when the close
  scheduled a retry, the retry timer fires.
\<close>

definition retryCycle :: "session \<Rightarrow> nat \<Rightarrow> session" where
  "retryCycle s now =
     (let s1 = onclose now s
      in if length (pendingTimers s1) > length (pendingTimers s)
         then expire (last (pendingTimers s1)) s1 else s1)"

definition consecutiveCloses :: "session \<Rightarrow> nat list \<Rightarrow> session" where
  "consecutiveCloses s closeTimes = foldl retryCycle s closeTimes"

definition reconnectTimers :: "session \<Rightarrow> timer list" where
  "reconnectTimers s = filter (\<lambda>t. snd (snd t) = Reconnect) (pendingTimers s)"

lemma retryCycle_examState: "examState (retryCycle s now) = examState s"
  by (simp add: retryCycle_def onclose_def expire_def clearTimeout_def setTimeout_def
        connectToPatientSession_def Let_def)

lemma retryCycle_attempt:
  "examState s = InProgress \<Longrightarrow>
     reconnectionAttemptRef (retryCycle s now)
       = (if reconnectionAttemptRef s < 5 then reconnectionAttemptRef s + 1
          else reconnectionAttemptRef s)"
  by (simp add: retryCycle_def onclose_def expire_def clearTimeout_def setTimeout_def
        connectToPatientSession_def Let_def)

lemma consecutiveCloses_state:
  "examState s = InProgress \<Longrightarrow> reconnectionAttemptRef s = 0 \<Longrightarrow>
     examState (consecutiveCloses s closeTimes) = InProgress
     \<and> reconnectionAttemptRef (consecutiveCloses s closeTimes) = min (length closeTimes) 5"
proof (induction closeTimes rule: rev_induct)
  case Nil
  then show ?case by (simp add: consecutiveCloses_def)
next
  case (snoc now closeTimes)
  then have ih: "examState (consecutiveCloses s closeTimes) = InProgress"
    "reconnectionAttemptRef (consecutiveCloses s closeTimes) = min (length closeTimes) 5"
    by simp_all
  have step: "consecutiveCloses s (closeTimes @ [now]) = retryCycle (consecutiveCloses s closeTimes) now"
    by (simp add: consecutiveCloses_def)
  show ?case
    unfolding step using ih
    by (simp add: retryCycle_examState retryCycle_attempt)
qed

lemma onclose_in_progress:
  "examState s = InProgress \<Longrightarrow>
     (reconnectionAttemptRef s < 5 \<longrightarrow>
        pendingTimers (onclose now s)
          = pendingTimers s @ [(nextTimerId s, now + 2000 * reconnectionAttemptRef s, Reconnect)]
        \<and> status (onclose now s) = ''Connection closed. Reconnecting...'')
     \<and> (reconnectionAttemptRef s \<ge> 5 \<longrightarrow>
        pendingTimers (onclose now s) = pendingTimers s
        \<and> status (onclose now s) = ''Connection failed permanently. Please refresh.'')"
  by (simp add: onclose_def setTimeout_def Let_def)

text \<open>
  Claim C4, as amended. Count the closes of the patient channel in phase in-progress
  since the connection was last open (or since the start). For \<open>N\<close> from 1 to 5
  the \<open>N\<close>-th close schedules one retry, due \<open>2000 \<times> (N - 1)\<close> milliseconds after
  the close, so the first retry is immediate, and the retry makes the attempt count
  \<open>N\<close>. From the sixth close on no retry is scheduled and the status is the terminal
  message "Connection failed permanently. Please refresh.". A connection that opens
  puts the count back to 0.
\<close>

theorem reconnect_backoff:
  assumes "examState s = InProgress" and "reconnectionAttemptRef s = 0"
    and "length closeTimes + 1 = N"
  shows "(N \<le> 5 \<longrightarrow>
            pendingTimers (onclose now (consecutiveCloses s closeTimes))
              = pendingTimers (consecutiveCloses s closeTimes)
                @ [(nextTimerId (consecutiveCloses s closeTimes), now + 2000 * (N - 1), Reconnect)]
            \<and> status (onclose now (consecutiveCloses s closeTimes)) = ''Connection closed. Reconnecting...''
            \<and> reconnectionAttemptRef (retryCycle (consecutiveCloses s closeTimes) now) = N)
         \<and> (N \<ge> 6 \<longrightarrow>
            pendingTimers (onclose now (consecutiveCloses s closeTimes))
              = pendingTimers (consecutiveCloses s closeTimes)
            \<and> status (onclose now (consecutiveCloses s closeTimes))
                = ''Connection failed permanently. Please refresh.''
            \<and> reconnectionAttemptRef (retryCycle (consecutiveCloses s closeTimes) now) = 5)
         \<and> reconnectionAttemptRef (onopen (consecutiveCloses s closeTimes)) = 0"
proof -
  let ?c = "consecutiveCloses s closeTimes"
  have st: "examState ?c = InProgress" "reconnectionAttemptRef ?c = min (length closeTimes) 5"
    using consecutiveCloses_state [OF assms(1,2), of closeTimes] by simp_all
  show ?thesis
    using onclose_in_progress [OF st(1), of now] retryCycle_attempt [OF st(1), of now] st(2) assms(3)
    by (auto simp: onopen_def)
qed

text \<open>
  The first close of a started exam at time 60000: the retry is due at 60000, not at
  62000 as a wait of \<open>2000 \<times> 1\<close> would have it.
\<close>

theorem reconnect_backoff_counterexample:
  "reconnectionAttemptRef startedSession = 0
   \<and> reconnectTimers (onclose 60000 startedSession) = [(3, 60000, Reconnect)]
   \<and> reconnectTimers (onclose 60000 startedSession) \<noteq> [(3, 60000 + 2000 * 1, Reconnect)]"
  by (simp add: reconnectTimers_def onclose_def startedSession_def readySession_def
        initialSession_def handleStartExam_def resetSilenceTimer_def clearIfSet_def
        setTimeout_def Let_def)

theorem reconnect_backoff_witness:
  "examState startedSession = InProgress \<and> reconnectionAttemptRef startedSession = 0
   \<and> pendingTimers (onclose 70000 (consecutiveCloses startedSession [60000, 61000]))
       = pendingTimers (consecutiveCloses startedSession [60000, 61000])
         @ [(nextTimerId (consecutiveCloses startedSession [60000, 61000]), 70000 + 2000 * 2, Reconnect)]
   \<and> status (onclose 70000 (consecutiveCloses startedSession [1, 2, 3, 4, 5]))
       = ''Connection failed permanently. Please refresh.''"
proof -
  have h: "examState startedSession = InProgress" "reconnectionAttemptRef startedSession = 0"
    by (simp_all add: startedSession_def readySession_def initialSession_def handleStartExam_def)
  have l: "length [60000, 61000::nat] + 1 = 3" "length [1, 2, 3, 4, 5::nat] + 1 = 6"
    by simp_all
  show ?thesis
    using h reconnect_backoff [OF h l(1), of 70000] reconnect_backoff [OF h l(2), of 70000]
    by simp
qed

subsection \<open>The scorecard editor\<close>

text \<open>
  A session with the scores the feedback step produced (every category 1, overall
  score 1), with the editor opened on them.
\<close>

definition scoredSession :: session where
  "scoredSession = startedSession\<lparr>examState := QA, scoreData := Some
     \<lparr>rapport = \<lparr>score = 1, justification = ''No greeting.''\<rparr>,
      historyTaking = \<lparr>score = 1, justification = ''No questions asked.''\<rparr>,
      communication = \<lparr>score = 1, justification = ''Abrupt.''\<rparr>,
      overallScore = 1\<rparr>\<rparr>"

definition editingSession :: session where
  "editingSession = handleEditScores scoredSession"

text \<open>The score of a category in the draft, and the draft's overall score.\<close>

definition draftScore :: "category \<Rightarrow> session \<Rightarrow> rat option" where
  "draftScore cat s = map_option (\<lambda>d. score (categoryOf cat d)) (editedScoreData s)"

lemma handleScoreChange_draft:
  "editedScoreData s = Some d \<Longrightarrow>
     \<exists>d'. editedScoreData (handleScoreChange cat newScore s) = Some d'
          \<and> overallScore d' = categoryMean d'
          \<and> score (categoryOf cat d') = newScore
          \<and> (\<forall>c. c \<noteq> cat \<longrightarrow> score (categoryOf c d') = score (categoryOf c d))"
proof -
  assume d: "editedScoreData s = Some d"
  let ?n = "withCategory cat ((categoryOf cat d)\<lparr>score := newScore\<rparr>) d"
  let ?d' = "?n\<lparr>overallScore := foldl (+) 0 [score (rapport ?n), score (historyTaking ?n),
                 score (communication ?n)] / of_nat (length [score (rapport ?n), score (historyTaking ?n),
                 score (communication ?n)])\<rparr>"
  have e: "editedScoreData (handleScoreChange cat newScore s) = Some ?d'"
    using d by (simp add: handleScoreChange_def Let_def)
  have m: "overallScore ?d' = categoryMean ?d'"
    by (cases cat) (simp_all add: categoryMean_def)
  have n: "score (categoryOf cat ?d') = newScore"
    by (cases cat) simp_all
  have o: "c \<noteq> cat \<longrightarrow> score (categoryOf c ?d') = score (categoryOf c d)" for c
    by (cases cat; cases c) simp_all
  from e m n o show ?thesis by blast
qed

lemma applyEdits_snoc:
  "applyEdits s (edits @ [e]) = handleScoreChange (fst e) (snd e) (applyEdits s edits)"
  by (simp add: applyEdits_def)

lemma applyEdits_draft_some:
  "editedScoreData s = Some d \<Longrightarrow> \<exists>d'. editedScoreData (applyEdits s edits) = Some d'"
proof (induction edits rule: rev_induct)
  case Nil
  then show ?case by (simp add: applyEdits_def)
next
  case (snoc e edits)
  then obtain d1 where "editedScoreData (applyEdits s edits) = Some d1" by blast
  then show ?case
    unfolding applyEdits_snoc using handleScoreChange_draft by blast
qed

text \<open>
  Claim C2, as amended. Once the draft has been changed by at least one
  \<open>handleScoreChange\<close> call, its overall score is the sum of the three category
  scores divided by 3, not rounded; saving then stores exactly this draft as the score
  data. (The score data first stored is whatever the backend sent, and the display
  alone shows one decimal place.)
\<close>

theorem overall_score_is_unrounded_mean:
  assumes "editedScoreData s = Some d" and "edits \<noteq> []"
  shows "\<exists>d'. editedScoreData (applyEdits s edits) = Some d'
           \<and> overallScore d' = categoryMean d'
           \<and> scoreData (handleSaveScores (applyEdits s edits)) = Some d'"
proof -
  obtain es e where split: "edits = es @ [e]"
    using assms(2) by (cases edits rule: rev_cases) auto
  obtain d1 where d1: "editedScoreData (applyEdits s es) = Some d1"
    using applyEdits_draft_some [OF assms(1)] by blast
  obtain d' where d': "editedScoreData (applyEdits s edits) = Some d'"
    "overallScore d' = categoryMean d'"
    unfolding split applyEdits_snoc using handleScoreChange_draft [OF d1] by blast
  have "scoreData (handleSaveScores (applyEdits s edits)) = Some d'"
    using d'(1) by (simp add: handleSaveScores_def)
  with d' show ?thesis by blast
qed

lemma editing_draft:
  "editedScoreData editingSession = Some
     \<lparr>rapport = \<lparr>score = 1, justification = ''No greeting.''\<rparr>,
      historyTaking = \<lparr>score = 1, justification = ''No questions asked.''\<rparr>,
      communication = \<lparr>score = 1, justification = ''Abrupt.''\<rparr>,
      overallScore = 1\<rparr>"
  by (simp add: editingSession_def handleEditScores_def scoredSession_def)

lemma round_4_3: "roundOneDecimal (4 / 3) = 13 / 10"
  by code_simp

text \<open>
  From category scores 1, 1, 1 the change of communication to 2 leaves the draft, and
  after saving the score data, with overall score 4/3, while the mean rounded to one
  decimal place is 1.3.
\<close>

theorem overall_score_is_unrounded_mean_counterexample:
  "overallScore (the (editedScoreData (handleScoreChange Communication 2 editingSession))) = 4 / 3
   \<and> roundOneDecimal (categoryMean (the (editedScoreData (handleScoreChange Communication 2 editingSession))))
       = 13 / 10
   \<and> overallScore (the (editedScoreData (handleScoreChange Communication 2 editingSession)))
       \<noteq> roundOneDecimal (categoryMean (the (editedScoreData (handleScoreChange Communication 2 editingSession))))
   \<and> overallScore (the (scoreData (handleSaveScores (handleScoreChange Communication 2 editingSession))))
       = 4 / 3"
  by (simp add: handleScoreChange_def handleSaveScores_def editing_draft categoryMean_def round_4_3 Let_def)

theorem overall_score_is_unrounded_mean_witness:
  "editedScoreData editingSession \<noteq> None \<and> [(Communication, 2::rat), (Rapport, 4)] \<noteq> []
   \<and> map_option overallScore (editedScoreData (applyEdits editingSession [(Communication, 2), (Rapport, 4)]))
       = Some (7 / 3)
   \<and> map_option categoryMean (scoreData (handleSaveScores (applyEdits editingSession [(Communication, 2), (Rapport, 4)])))
       = Some (7 / 3)"
proof -
  have n: "[(Communication, 2::rat), (Rapport, 4)] \<noteq> []" by simp
  have v: "map_option categoryMean (editedScoreData (applyEdits editingSession [(Communication, 2), (Rapport, 4)]))
       = Some (7 / 3)"
    by (simp add: applyEdits_def handleScoreChange_def editing_draft categoryMean_def Let_def)
  show ?thesis
    using v overall_score_is_unrounded_mean [OF editing_draft n]
    by (auto simp: editing_draft)
qed

text \<open>
  Claim C9, as amended. A \<open>handleScoreChange\<close> call on an existing draft stores
  the new score for that category as it was given, without clamping; the stars of the
  scorecard, the only callers, pass \<open>i + 1\<close> for \<open>i\<close> from 0 to 4, and then the
  stored score is a whole number from 1 to 5.
\<close>

theorem score_change_stores_argument:
  assumes "editedScoreData s = Some d"
  shows "draftScore cat (handleScoreChange cat newScore s) = Some newScore
         \<and> (i < 5 \<longrightarrow> (\<exists>k\<in>{1..5}. draftScore cat (starClick cat i s) = Some (of_nat k)))"
proof -
  have store: "draftScore cat (handleScoreChange cat x s) = Some x" for x
    using handleScoreChange_draft [OF assms, of cat x] by (auto simp: draftScore_def)
  have "draftScore cat (starClick cat i s) = Some (of_nat (i + 1))"
    unfolding starClick_def using store [of "of_nat i + 1"] by simp
  moreover have "i < 5 \<longrightarrow> i + 1 \<in> {1..5}" by simp
  ultimately show ?thesis using store by blast
qed

text \<open>The call with new score 7 stores 7, which is above 5.\<close>

theorem score_change_stores_argument_counterexample:
  "draftScore Rapport (handleScoreChange Rapport 7 editingSession) = Some 7
   \<and> \<not> (7 \<le> (5::rat))"
  by (simp add: draftScore_def handleScoreChange_def editing_draft Let_def)

theorem score_change_stores_argument_witness:
  "editedScoreData editingSession \<noteq> None \<and> (4::nat) < 5
   \<and> draftScore HistoryTaking (handleScoreChange HistoryTaking 3 editingSession) = Some 3
   \<and> draftScore HistoryTaking (starClick HistoryTaking 4 editingSession) = Some 5"
proof -
  have c: "draftScore HistoryTaking (starClick HistoryTaking 4 editingSession) = Some 5"
    by (simp add: draftScore_def starClick_def handleScoreChange_def editing_draft Let_def)
  show ?thesis
    using c score_change_stores_argument [OF editing_draft, of HistoryTaking 3 4]
    by (simp add: editing_draft)
qed

subsection \<open>The feedback stream\<close>

subsubsection \<open>Cutting the text into segments\<close>

text \<open>
  In the words of the specification: the streamed text is split on \<open>.\<close>, \<open>?\<close>,
  \<open>!\<close> and newline. \<open>specSegments\<close> gives the fragments that end in one of these,
  in text order, and the rest of the text after the last of them.
\<close>

definition isTerminator :: "char \<Rightarrow> bool" where
  "isTerminator c \<longleftrightarrow> c = CHR ''.'' \<or> c = CHR ''?'' \<or> c = CHR ''!'' \<or> c = CHR 0x0A"

fun specSegments :: "string \<Rightarrow> string list \<times> string" where
  "specSegments [] = ([], [])"
| "specSegments (c # cs) =
     (case specSegments cs of
        (gs, rest) \<Rightarrow>
          if isTerminator c then ([c] # gs, rest)
          else (case gs of
                  [] \<Rightarrow> ([], c # rest)
                | g # gs' \<Rightarrow> ((c # g) # gs', rest)))"

text \<open>The fragments for which speech is requested: those that are not blank.\<close>

definition spoken :: "string \<Rightarrow> string list" where
  "spoken b = filter (\<lambda>g. trim g \<noteq> []) (fst (specSegments b))"




lemma punctuation_isTerminator: "(c \<in> set punctuation) = isTerminator c"
  by (auto simp: punctuation_def isTerminator_def)

lemma findIndex_None_segments:
  "findIndex isTerminator b = None \<Longrightarrow> specSegments b = ([], b)"
  by (induction b) (auto split: if_splits option.splits prod.splits)

lemma findIndex_Some_segments:
  "findIndex isTerminator b = Some i \<Longrightarrow>
     specSegments b = (take (i + 1) b # fst (specSegments (drop (i + 1) b)),
                       snd (specSegments (drop (i + 1) b)))"
proof (induction b arbitrary: i)
  case Nil
  then show ?case by simp
next
  case (Cons c cs)
  show ?case
  proof (cases "isTerminator c")
    case True
    then have "i = 0" using Cons.prems by simp
    then show ?thesis using True by (simp split: prod.splits)
  next
    case False
    then obtain j where j: "findIndex isTerminator cs = Some j" and i: "i = j + 1"
      using Cons.prems by (auto split: option.splits)
    from Cons.IH [OF j] show ?thesis
      using False i by (simp split: prod.splits)
  qed
qed

text \<open>
  What the loop does, in one step: it leaves the rest of the text in the buffer and
  calls \<open>playQueuedAudio\<close> for each fragment that is not blank, in text order.
\<close>

definition playAll :: "feedback_vars \<Rightarrow> string list \<Rightarrow> feedback_vars" where
  "playAll v gs = foldl (\<lambda>v g. playQueuedAudio g v) v gs"

lemma playQueuedAudio_buffer:
  "playQueuedAudio g (v\<lparr>textBuffer := b\<rparr>) = (playQueuedAudio g v)\<lparr>textBuffer := b\<rparr>"
  by (simp add: playQueuedAudio_def)

lemma playAll_buffer: "playAll (v\<lparr>textBuffer := b\<rparr>) gs = (playAll v gs)\<lparr>textBuffer := b\<rparr>"
  unfolding playAll_def
  by (induction gs arbitrary: v) (simp_all add: playQueuedAudio_buffer)

lemma playAll_Cons: "playAll v (g # gs) = playAll (playQueuedAudio g v) gs"
  by (simp add: playAll_def)

lemma playAll_snoc: "playAll v (gs @ [g]) = playQueuedAudio g (playAll v gs)"
  by (simp add: playAll_def)

lemma sentenceLoop_closed:
  "sentenceLoop v = (playAll v (spoken (textBuffer v)))\<lparr>textBuffer := snd (specSegments (textBuffer v))\<rparr>"
proof (induction v rule: sentenceLoop.induct)
  case (1 v)
  show ?case
  proof (cases "findIndex isTerminator (textBuffer v)")
    case None
    then have "sentenceLoop v = v"
      by (simp add: sentenceLoop.simps [of v] punctuation_isTerminator)
    then show ?thesis
      using findIndex_None_segments [OF None] by (simp add: spoken_def playAll_def)
  next
    case (Some i)
    let ?sentence = "take (i + 1) (textBuffer v)"
    let ?rest = "drop (i + 1) (textBuffer v)"
    let ?v1 = "v\<lparr>textBuffer := ?rest\<rparr>"
    let ?v' = "if trim ?sentence \<noteq> [] then playQueuedAudio ?sentence ?v1 else ?v1"
    have found: "findIndex (\<lambda>c. c \<in> set punctuation) (textBuffer v) = Some i"
      using Some by (simp add: punctuation_isTerminator)
    have run: "sentenceLoop v = sentenceLoop ?v'"
      using found by (simp add: sentenceLoop.simps [of v] Let_def)
    have ih: "sentenceLoop ?v' = (playAll ?v' (spoken (textBuffer ?v')))
                \<lparr>textBuffer := snd (specSegments (textBuffer ?v'))\<rparr>"
      using "1.IH" [OF found refl refl] by simp
    have buf: "textBuffer ?v' = ?rest"
      by (simp add: playQueuedAudio_def)
    note seg = findIndex_Some_segments [OF Some]
    show ?thesis
    proof (cases "trim ?sentence \<noteq> []")
      case True
      have "spoken (textBuffer v) = ?sentence # spoken ?rest"
        using seg True by (simp add: spoken_def)
      moreover have "?v' = (playQueuedAudio ?sentence v)\<lparr>textBuffer := ?rest\<rparr>"
        using True by (simp add: playQueuedAudio_buffer)
      ultimately show ?thesis
        unfolding run ih buf using seg
        by (simp add: playAll_Cons playAll_buffer)
    next
      case False
      have "spoken (textBuffer v) = spoken ?rest"
        using seg False by (simp add: spoken_def)
      moreover have "?v' = v\<lparr>textBuffer := ?rest\<rparr>"
        using False by simp
      ultimately show ?thesis
        unfolding run ih buf using seg
        by (simp add: playAll_buffer)
    qed
  qed
qed

lemma playAll_fields:
  assumes "\<forall>g \<in> set gs. trim g \<noteq> []"
  shows "speechRequests (playAll v gs) = speechRequests v @ gs"
    and "pendingSpeech (playAll v gs)
           = pendingSpeech v @ [length (speechRequests v)..<length (speechRequests v) + length gs]"
    and "audioQueue (playAll v gs) = audioQueue v"
    and "fullFeedbackText (playAll v gs) = fullFeedbackText v"
    and "textBuffer (playAll v gs) = textBuffer v"
  using assms
  by (induction gs rule: rev_induct) (simp_all add: playAll_snoc playQueuedAudio_def playAll_def)

lemma spoken_not_blank: "\<forall>g \<in> set (spoken b). trim g \<noteq> []"
  by (simp add: spoken_def)

text \<open>The fields after \<open>processTextForSpeech\<close>, without and with the flush.\<close>

lemma processTextForSpeech_fields:
  "speechRequests (processTextForSpeech False v) = speechRequests v @ spoken (textBuffer v)"
  "textBuffer (processTextForSpeech False v) = snd (specSegments (textBuffer v))"
  "fullFeedbackText (processTextForSpeech isLast v) = fullFeedbackText v"
  "audioQueue (processTextForSpeech isLast v) = audioQueue v"
  "pendingSpeech (processTextForSpeech False v)
     = pendingSpeech v @ [length (speechRequests v)..<
                          length (speechRequests v) + length (spoken (textBuffer v))]"
  "speechRequests (processTextForSpeech True v)
     = speechRequests v @ spoken (textBuffer v)
       @ (if trim (snd (specSegments (textBuffer v))) \<noteq> []
          then [snd (specSegments (textBuffer v))] else [])"
  "textBuffer (processTextForSpeech True v)
     = (if trim (snd (specSegments (textBuffer v))) \<noteq> [] then []
        else snd (specSegments (textBuffer v)))"
  "pendingSpeech (processTextForSpeech True v)
     = pendingSpeech v @ [length (speechRequests v)..<
         length (speechRequests v) + length (spoken (textBuffer v)
           @ (if trim (snd (specSegments (textBuffer v))) \<noteq> []
              then [snd (specSegments (textBuffer v))] else []))]"
  by (simp_all add: processTextForSpeech_def sentenceLoop_closed Let_def
        playAll_fields [OF spoken_not_blank] playQueuedAudio_def)

subsubsection \<open>Syntheses that resolve\<close>

lemma speechSynthesized_text:
  "fullFeedbackText (speechSynthesized v r) = fullFeedbackText v"
  "textBuffer (speechSynthesized v r) = textBuffer v"
  "speechRequests (speechSynthesized v r) = speechRequests v"
  by (simp_all add: speechSynthesized_def Let_def split: option.splits)

lemma resolved_text:
  "fullFeedbackText (foldl speechSynthesized v rs) = fullFeedbackText v"
  "textBuffer (foldl speechSynthesized v rs) = textBuffer v"
  "speechRequests (foldl speechSynthesized v rs) = speechRequests v"
  by (induction rs arbitrary: v) (simp_all add: speechSynthesized_text)

lemma onChunkReceived_fields:
  "fullFeedbackText (fst (onChunkReceived vs c)) = fullFeedbackText (fst vs) @ c"
  "textBuffer (fst (onChunkReceived vs c)) = snd (specSegments (textBuffer (fst vs) @ c))"
  "speechRequests (fst (onChunkReceived vs c))
     = speechRequests (fst vs) @ spoken (textBuffer (fst vs) @ c)"
  "pendingSpeech (fst (onChunkReceived vs c))
     = pendingSpeech (fst vs) @ [length (speechRequests (fst vs))..<
         length (speechRequests (fst vs)) + length (spoken (textBuffer (fst vs) @ c))]"
  "audioQueue (fst (onChunkReceived vs c)) = audioQueue (fst vs)"
  "transcripts (snd (onChunkReceived vs c))
     = rewriteLastExaminer (fullFeedbackText (fst vs) @ c) (transcripts (snd vs))"
  "snd (onChunkReceived vs c)
     = (snd vs)\<lparr>examinerFeedback := fullFeedbackText (fst vs) @ c,
                  transcripts := rewriteLastExaminer (fullFeedbackText (fst vs) @ c)
                                   (transcripts (snd vs))\<rparr>"
  by (simp_all add: onChunkReceived_def Let_def processTextForSpeech_fields)

text \<open>
  The texts for which speech is requested, the text kept in the buffer and the session
  do not depend on when, in which order, or with what result the syntheses resolve.
\<close>

lemma deliver_any_schedule:
  assumes "fullFeedbackText (fst vs) = fullFeedbackText (fst vs')"
    and "textBuffer (fst vs) = textBuffer (fst vs')"
    and "speechRequests (fst vs) = speechRequests (fst vs')"
    and "snd vs = snd vs'"
  shows "fullFeedbackText (fst (deliver vs chunks resolved))
           = fullFeedbackText (fst (deliver vs' chunks resolved'))
       \<and> textBuffer (fst (deliver vs chunks resolved))
           = textBuffer (fst (deliver vs' chunks resolved'))
       \<and> speechRequests (fst (deliver vs chunks resolved))
           = speechRequests (fst (deliver vs' chunks resolved'))
       \<and> snd (deliver vs chunks resolved) = snd (deliver vs' chunks resolved')"
  using assms
proof (induction chunks arbitrary: vs vs' resolved resolved')
  case Nil
  then show ?case by simp
next
  case (Cons c chunks)
  let ?n = "\<lambda>vs resolved. (foldl speechSynthesized (fst (onChunkReceived vs c))
                 (case resolved of [] \<Rightarrow> [] | r # _ \<Rightarrow> r), snd (onChunkReceived vs c))"
  have "fullFeedbackText (fst (?n vs resolved)) = fullFeedbackText (fst (?n vs' resolved'))"
    "textBuffer (fst (?n vs resolved)) = textBuffer (fst (?n vs' resolved'))"
    "speechRequests (fst (?n vs resolved)) = speechRequests (fst (?n vs' resolved'))"
    "snd (?n vs resolved) = snd (?n vs' resolved')"
    using Cons.prems by (simp_all add: resolved_text onChunkReceived_fields)
  from Cons.IH [OF this] show ?case
    by (simp add: Let_def)
qed

lemma feedbackStreaming_any_schedule:
  "speechRequests (fst (feedbackStreaming parseScore responseStream entry resolved late s0))
     = speechRequests (fst (feedbackStreaming parseScore responseStream entry [] [] s0))"
  "snd (feedbackStreaming parseScore responseStream entry resolved late s0)
     = snd (feedbackStreaming parseScore responseStream entry [] [] s0)"
proof -
  let ?v0 = "\<lparr>fullFeedbackText = [], textBuffer = [], speechRequests = [],
               pendingSpeech = [], audioQueue = []\<rparr>"
  let ?cs = "chunksDelivered (streamDetailedExaminerFeedback parseScore responseStream entry)"
  have d: "fullFeedbackText (fst (deliver (?v0, s0) ?cs resolved))
             = fullFeedbackText (fst (deliver (?v0, s0) ?cs []))
       \<and> textBuffer (fst (deliver (?v0, s0) ?cs resolved))
             = textBuffer (fst (deliver (?v0, s0) ?cs []))
       \<and> speechRequests (fst (deliver (?v0, s0) ?cs resolved))
             = speechRequests (fst (deliver (?v0, s0) ?cs []))
       \<and> snd (deliver (?v0, s0) ?cs resolved) = snd (deliver (?v0, s0) ?cs [])"
    by (rule deliver_any_schedule) simp_all
  show "speechRequests (fst (feedbackStreaming parseScore responseStream entry resolved late s0))
     = speechRequests (fst (feedbackStreaming parseScore responseStream entry [] [] s0))"
    using d by (simp add: feedbackStreaming_def Let_def split_beta resolved_text
          processTextForSpeech_fields)
  show "snd (feedbackStreaming parseScore responseStream entry resolved late s0)
     = snd (feedbackStreaming parseScore responseStream entry [] [] s0)"
    using d by (simp add: feedbackStreaming_def Let_def split_beta)
qed

subsubsection \<open>The scenario\<close>

lemma rewriteLastExaminer_snoc:
  "rewriteLastExaminer newText (xs @ [e])
     = xs @ [if role e = Examiner then e\<lparr>text' := newText\<rparr> else e]"
  by (simp add: rewriteLastExaminer_def nth_append)

lemma triggerFeedbackPhase_in_progress:
  "examState s = InProgress \<Longrightarrow>
     transcripts (triggerFeedbackPhase s) = transcripts s @ [\<lparr>role = Examiner, text' = ''...''\<rparr>]
     \<and> examState (triggerFeedbackPhase s) = Feedback
     \<and> silenceWarningVisible (triggerFeedbackPhase s) = False"
  by (simp add: triggerFeedbackPhase_def Let_def)

text \<open>The two chunks of the scenario and a chunk that is a score block.\<close>

definition twoChunks :: "string list" where
  "twoChunks = [''Great job. '', ''Keep practicing!'']"

definition scoreBlock :: "string \<Rightarrow> string" where
  "scoreBlock json = scoreStartTag @ json @ scoreEndTag"

lemma stream_two_chunks_and_score:
  assumes "2 \<le> length transcript"
  shows "chunksDelivered (streamDetailedExaminerFeedback parseScore
            (twoChunks @ [scoreBlock json], EndOfStream) transcript) = twoChunks"
    and "feedbackText (streamDetailedExaminerFeedback parseScore
            (twoChunks @ [scoreBlock json], EndOfStream) transcript) = ''Great job. Keep practicing!''"
proof -
  have t: "trim ''Great job. Keep practicing!'' = ''Great job. Keep practicing!''"
    by (simp add: trim_def isWhiteSpace_def)
  have v: "foldl streamChunk \<lparr>fullResponseText = [], feedbackSoFar = [], onChunkCalls = []\<rparr>
             (twoChunks @ [scoreBlock json])
           = \<lparr>fullResponseText = ''Great job. Keep practicing!'' @ scoreBlock json,
              feedbackSoFar = ''Great job. Keep practicing!'', onChunkCalls = twoChunks\<rparr>"
    by (simp add: twoChunks_def scoreBlock_def streamChunk_def scoreStartTag_def Let_def)
  show "chunksDelivered (streamDetailedExaminerFeedback parseScore
            (twoChunks @ [scoreBlock json], EndOfStream) transcript) = twoChunks"
    using assms v by (simp add: streamDetailedExaminerFeedback_def Let_def del: foldl_append)
  show "feedbackText (streamDetailedExaminerFeedback parseScore
            (twoChunks @ [scoreBlock json], EndOfStream) transcript) = ''Great job. Keep practicing!''"
    using assms v by (simp add: streamDetailedExaminerFeedback_def t Let_def del: foldl_append)
qed

lemma scenario_segments:
  "spoken ''Great job. '' = [''Great job.'']"
  "snd (specSegments ''Great job. '') = '' ''"
  "spoken '' Keep practicing!'' = ['' Keep practicing!'']"
  "snd (specSegments '' Keep practicing!'') = []"
  by (simp_all add: spoken_def isTerminator_def trim_def isWhiteSpace_def)

text \<open>The local variables when both chunks are in and no synthesis has resolved.\<close>

lemma two_chunks_vars:
  assumes "fst vs = \<lparr>fullFeedbackText = [], textBuffer = [], speechRequests = [],
                      pendingSpeech = [], audioQueue = []\<rparr>"
  shows "fst (deliver vs twoChunks [])
           = \<lparr>fullFeedbackText = ''Great job. Keep practicing!'', textBuffer = [],
              speechRequests = [''Great job.'', '' Keep practicing!''],
              pendingSpeech = [0, 1], audioQueue = []\<rparr>"
proof -
  let ?d = "fst (deliver vs twoChunks [])"
  have "fullFeedbackText ?d = ''Great job. Keep practicing!''" "textBuffer ?d = []"
    "speechRequests ?d = [''Great job.'', '' Keep practicing!'']"
    "pendingSpeech ?d = [0, 1]" "audioQueue ?d = []"
    using assms
    by (simp_all add: twoChunks_def Let_def onChunkReceived_fields scenario_segments
          del: specSegments.simps)
  then show ?thesis
    by (cases ?d) simp
qed

lemma two_chunks_session:
  assumes "transcripts (snd vs) = ts @ [\<lparr>role = Examiner, text' = t0\<rparr>]"
    and "fullFeedbackText (fst vs) = []"
  shows "transcripts (snd (deliver vs twoChunks []))
           = ts @ [\<lparr>role = Examiner, text' = ''Great job. Keep practicing!''\<rparr>]"
  using assms
  by (simp add: twoChunks_def Let_def onChunkReceived_fields rewriteLastExaminer_snoc)

text \<open>With an empty buffer the flush at the end of the stream changes nothing.\<close>

lemma flush_nothing: "textBuffer v = [] \<Longrightarrow> processTextForSpeech True v = v"
  by (cases v)
     (simp add: processTextForSpeech_def sentenceLoop_closed Let_def spoken_def playAll_def trim_Nil)

text \<open>
  The scenario with no synthesis resolving while the stream runs: the local variables
  at the end are those after the flush, with the late syntheses applied.
\<close>

lemma feedback_two_chunks:
  assumes "examState s = InProgress" and "2 \<le> length (transcripts s)"
  shows "fst (feedbackPhase parseScore (twoChunks @ [scoreBlock json], EndOfStream) [] late s)
           = foldl speechSynthesized
               \<lparr>fullFeedbackText = ''Great job. Keep practicing!'', textBuffer = [],
                speechRequests = [''Great job.'', '' Keep practicing!''],
                pendingSpeech = [0, 1], audioQueue = []\<rparr> late"
    and "transcripts (snd (feedbackPhase parseScore (twoChunks @ [scoreBlock json], EndOfStream)
            resolved late s))
           = transcripts s @ [\<lparr>role = Examiner, text' = ''Great job. Keep practicing!''\<rparr>]"
    and "speechRequests (fst (feedbackPhase parseScore (twoChunks @ [scoreBlock json], EndOfStream)
            resolved late s))
           = [''Great job.'', '' Keep practicing!'']"
proof -
  let ?stream = "(twoChunks @ [scoreBlock json], EndOfStream)"
  let ?r = "streamDetailedExaminerFeedback parseScore ?stream (transcripts s)"
  let ?s0 = "triggerFeedbackPhase s"
  let ?v0 = "\<lparr>fullFeedbackText = [], textBuffer = [], speechRequests = [],
               pendingSpeech = [], audioQueue = []\<rparr>"
  let ?w = "\<lparr>fullFeedbackText = ''Great job. Keep practicing!'', textBuffer = [],
              speechRequests = [''Great job.'', '' Keep practicing!''],
              pendingSpeech = [0, 1], audioQueue = []\<rparr>"
  have r: "chunksDelivered ?r = twoChunks" "feedbackText ?r = ''Great job. Keep practicing!''"
    using stream_two_chunks_and_score [OF assms(2)] by simp_all
  have s0: "transcripts ?s0 = transcripts s @ [\<lparr>role = Examiner, text' = ''...''\<rparr>]"
    using triggerFeedbackPhase_in_progress [OF assms(1)] by simp
  have v: "fst (deliver (?v0, ?s0) twoChunks []) = ?w"
    by (rule two_chunks_vars) simp
  have flush: "processTextForSpeech True ?w = ?w"
    by (rule flush_nothing) simp
  have t: "transcripts (snd (deliver (?v0, ?s0) twoChunks []))
           = transcripts s @ [\<lparr>role = Examiner, text' = ''Great job. Keep practicing!''\<rparr>]"
    by (rule two_chunks_session) (simp_all add: s0)
  have phase: "feedbackPhase parseScore ?stream sched lt s
      = feedbackStreaming parseScore ?stream (transcripts s) sched lt ?s0" for sched lt
    using assms(1) by (simp add: feedbackPhase_def)
  have "fst (feedbackStreaming parseScore ?stream (transcripts s) [] lt ?s0)
          = foldl speechSynthesized
              (processTextForSpeech True (fst (deliver (?v0, ?s0) twoChunks []))) lt" for lt
    by (simp add: feedbackStreaming_def Let_def split_beta r(1))
  then have gen: "fst (feedbackStreaming parseScore ?stream (transcripts s) [] lt ?s0)
          = foldl speechSynthesized ?w lt" for lt
    unfolding v flush .
  show "fst (feedbackPhase parseScore ?stream [] late s) = foldl speechSynthesized ?w late"
    unfolding phase by (rule gen)
  have "transcripts (snd (feedbackStreaming parseScore ?stream (transcripts s) [] [] ?s0))
           = transcripts s @ [\<lparr>role = Examiner, text' = ''Great job. Keep practicing!''\<rparr>]"
    by (simp add: feedbackStreaming_def Let_def split_beta r t rewriteLastExaminer_snoc)
  then show "transcripts (snd (feedbackPhase parseScore ?stream resolved late s))
           = transcripts s @ [\<lparr>role = Examiner, text' = ''Great job. Keep practicing!''\<rparr>]"
    unfolding phase by (simp add: feedbackStreaming_any_schedule(2) [of _ _ _ resolved late])
  have "speechRequests (fst (feedbackStreaming parseScore ?stream (transcripts s) [] [] ?s0))
           = [''Great job.'', '' Keep practicing!'']"
    using gen [of "[]"] by simp
  then show "speechRequests (fst (feedbackPhase parseScore ?stream resolved late s))
           = [''Great job.'', '' Keep practicing!'']"
    unfolding phase by (simp add: feedbackStreaming_any_schedule(1) [of _ _ _ resolved late])
qed

subsubsection \<open>The playback queue\<close>

text \<open>
  A synthesis that resolves for a pending request puts the text of that request on
  the queue when it brought audio, and nothing otherwise; the request is then no
  longer pending.
\<close>

lemma speechSynthesized_pending:
  assumes "fst r \<in> set (pendingSpeech v)"
  shows "audioQueue (speechSynthesized v r)
           = audioQueue v @ (if snd r \<noteq> None \<and> snd r \<noteq> Some [] then [speechRequests v ! fst r] else [])"
    and "pendingSpeech (speechSynthesized v r) = removeAll (fst r) (pendingSpeech v)"
  using assms by (auto simp: speechSynthesized_def Let_def split: option.splits)

text \<open>
  So the queue is in the order in which the syntheses resolve: whatever that order is,
  the queue holds the texts of the requests that brought audio, in that order.
\<close>

lemma queue_in_completion_order:
  assumes "distinct (map fst late)" and "fst ` set late \<subseteq> set (pendingSpeech v)"
  shows "audioQueue (foldl speechSynthesized v late)
           = audioQueue v @ map (\<lambda>r. speechRequests v ! fst r)
                              (filter (\<lambda>r. snd r \<noteq> None \<and> snd r \<noteq> Some []) late)"
  using assms
proof (induction late arbitrary: v)
  case Nil
  then show ?case by simp
next
  case (Cons r rs)
  let ?v = "speechSynthesized v r"
  have r: "fst r \<in> set (pendingSpeech v)"
    using Cons.prems(2) by simp
  have d: "distinct (map fst rs)" and n: "fst r \<notin> fst ` set rs"
    using Cons.prems(1) by simp_all
  have "fst ` set rs \<subseteq> set (pendingSpeech v)"
    using Cons.prems(2) by simp
  with n have "fst ` set rs \<subseteq> set (pendingSpeech ?v)"
    unfolding speechSynthesized_pending(2) [OF r] set_removeAll by blast
  from Cons.IH [OF d this] show ?case
    by (simp add: speechSynthesized_pending(1) [OF r] speechSynthesized_text)
qed


text \<open>
  When the second synthesis resolves before the first, the second segment is first on
  the queue and is played first.
\<close>

lemma two_chunks_queue_reversed:
  assumes "examState s = InProgress" and "2 \<le> length (transcripts s)"
    and "a0 \<noteq> []" and "a1 \<noteq> []"
  shows "audioQueue (fst (feedbackPhase parseScore (twoChunks @ [scoreBlock json], EndOfStream) []
            [(1, Some a1), (0, Some a0)] s))
           = ['' Keep practicing!'', ''Great job.'']"
  unfolding feedback_two_chunks(1) [OF assms(1,2)]
  using assms(3,4) by (subst queue_in_completion_order) simp_all








subsection \<open>The silence watchdog\<close>

text \<open>
  The pending timers of the watchdog, and the bookkeeping that keeps them under
  control: pending timers have different ids below the next id, and a pending
  watchdog timer is the one its ref names.
\<close>

definition isWatchdog :: "timer \<Rightarrow> bool" where
  "isWatchdog t \<longleftrightarrow> snd (snd t) = ShowSilenceWarning \<or> snd (snd t) = SilenceExpired"

definition watchdogTimers :: "session \<Rightarrow> timer list" where
  "watchdogTimers s = filter isWatchdog (pendingTimers s)"

definition timersOk :: "session \<Rightarrow> bool" where
  "timersOk s \<longleftrightarrow>
     distinct (map fst (pendingTimers s))
     \<and> (\<forall>t \<in> set (pendingTimers s).
          fst t < nextTimerId s
          \<and> (snd (snd t) = ShowSilenceWarning \<longrightarrow> warningTimerRef s = Some (fst t))
          \<and> (snd (snd t) = SilenceExpired \<longrightarrow> silenceTimerRef s = Some (fst t)))"

text \<open>
  The watchdog armed at time \<open>t0\<close>: in progress, indicator off, and exactly the
  warning timer due at \<open>t0 + 15000\<close> and the silence timer due at \<open>t0 + 20000\<close>
  pending for it.
\<close>

definition armedAt :: "nat \<Rightarrow> session \<Rightarrow> bool" where
  "armedAt t0 s \<longleftrightarrow>
     examState s = InProgress \<and> timersOk s \<and> \<not> silenceWarningVisible s
     \<and> map snd (watchdogTimers s)
         = [(t0 + 15000, ShowSilenceWarning), (t0 + 20000, SilenceExpired)]"

subsubsection \<open>The next due timer\<close>

lemma earliest_least:
  "\<forall>y \<in> set (m # ts). fst (snd (earliest m ts)) \<le> fst (snd y)"
proof (induction ts arbitrary: m)
  case Nil
  then show ?case by simp
next
  case (Cons t ts)
  let ?m = "if fst (snd t) < fst (snd m) then t else m"
  have ih: "\<forall>y \<in> set (?m # ts). fst (snd (earliest ?m ts)) \<le> fst (snd y)"
    by (rule Cons.IH)
  then have "fst (snd (earliest ?m ts)) \<le> fst (snd ?m)" by simp
  then have "fst (snd (earliest ?m ts)) \<le> fst (snd m)" "fst (snd (earliest ?m ts)) \<le> fst (snd t)"
    by (auto split: if_splits)
  with ih show ?case by auto
qed


lemma nextDue_Some:
  assumes "nextDue now ts = Some x"
  shows "x \<in> set ts" and "fst (snd x) \<le> now"
    and "\<forall>y \<in> set ts. fst (snd y) \<le> now \<longrightarrow> fst (snd x) \<le> fst (snd y)"
proof -
  obtain d rest where f: "filter (\<lambda>t. fst (snd t) \<le> now) ts = d # rest"
    and x: "x = earliest d rest"
    using assms by (auto simp: nextDue_def split: list.splits)
  have mem: "x \<in> set (filter (\<lambda>t. fst (snd t) \<le> now) ts)"
    using earliest_mem [of d rest] x f by simp
  then show "x \<in> set ts" and "fst (snd x) \<le> now" by simp_all
  have least: "\<forall>y \<in> set (filter (\<lambda>t. fst (snd t) \<le> now) ts). fst (snd x) \<le> fst (snd y)"
    using earliest_least [of d rest] x f by simp
  show "\<forall>y \<in> set ts. fst (snd y) \<le> now \<longrightarrow> fst (snd x) \<le> fst (snd y)"
  proof (intro ballI impI)
    fix y
    assume "y \<in> set ts" and "fst (snd y) \<le> now"
    then have "y \<in> set (filter (\<lambda>t. fst (snd t) \<le> now) ts)" by simp
    with least show "fst (snd x) \<le> fst (snd y)" by blast
  qed
qed

subsubsection \<open>Removing one timer\<close>

lemma same_id_same_timer:
  "distinct (map fst ts) \<Longrightarrow> a \<in> set ts \<Longrightarrow> b \<in> set ts \<Longrightarrow> fst a = fst b \<Longrightarrow> a = b"
  by (meson distinct_map inj_onD)

lemma remove_other_keeps_watchdog:
  assumes "distinct (map fst ts)" and "x \<in> set ts" and "\<not> isWatchdog x"
  shows "filter isWatchdog (filter (\<lambda>t. fst t \<noteq> fst x) ts) = filter isWatchdog ts"
proof -
  have "\<forall>t \<in> set ts. isWatchdog t \<longrightarrow> fst t \<noteq> fst x"
    using assms same_id_same_timer by blast
  then show ?thesis
    by (induction ts) auto
qed

lemma timersOk_filter:
  "timersOk s \<Longrightarrow> timersOk (s\<lparr>pendingTimers := filter P (pendingTimers s)\<rparr>)"
  by (simp add: timersOk_def distinct_map_filter)

lemma clearIfSet_pending:
  "pendingTimers (clearIfSet r s)
     = (case r of None \<Rightarrow> pendingTimers s
        | Some i \<Rightarrow> filter (\<lambda>t. fst t \<noteq> i) (pendingTimers s))"
  by (cases r) (simp_all add: clearIfSet_def clearTimeout_def)

lemma timersOk_clearIfSet: "timersOk s \<Longrightarrow> timersOk (clearIfSet r s)"
  by (cases r) (simp_all add: clearIfSet_def clearTimeout_def timersOk_def distinct_map_filter)

text \<open>Clearing both refs leaves no watchdog timer pending.\<close>

lemma clear_both_no_watchdog:
  assumes "timersOk s"
  shows "watchdogTimers (clearIfSet (silenceTimerRef s) (clearIfSet (warningTimerRef s) s)) = []"
    and "watchdogTimers (clearIfSet (warningTimerRef s) (clearIfSet (silenceTimerRef s) s)) = []"
  using assms
  by (auto simp: watchdogTimers_def clearIfSet_pending timersOk_def isWatchdog_def
        filter_empty_conv split: option.splits)

subsubsection \<open>Arming\<close>

lemma resetSilenceTimer_armed_fields:
  assumes "examState s = InProgress"
  shows "pendingTimers (resetSilenceTimer now s)
           = pendingTimers (clearIfSet (silenceTimerRef s) (clearIfSet (warningTimerRef s) s))
             @ [(nextTimerId s, now + 15000, ShowSilenceWarning),
                (nextTimerId s + 1, now + 20000, SilenceExpired)]"
    and "warningTimerRef (resetSilenceTimer now s) = Some (nextTimerId s)"
    and "silenceTimerRef (resetSilenceTimer now s) = Some (nextTimerId s + 1)"
    and "nextTimerId (resetSilenceTimer now s) = nextTimerId s + 2"
  using assms
  by (simp_all add: resetSilenceTimer_def Let_def split_beta)

lemma resetSilenceTimer_arms:
  assumes "timersOk s" and "examState s = InProgress"
  shows "armedAt now (resetSilenceTimer now s)"
proof -
  let ?c = "clearIfSet (silenceTimerRef s) (clearIfSet (warningTimerRef s) s)"
  let ?a = "resetSilenceTimer now s"
  have c_ok: "timersOk ?c"
    using assms(1) by (simp add: timersOk_clearIfSet)
  have c_none: "filter isWatchdog (pendingTimers ?c) = []"
    using clear_both_no_watchdog(1) [OF assms(1)] by (simp add: watchdogTimers_def)
  have c_next: "nextTimerId ?c = nextTimerId s"
    by simp
  have wd: "watchdogTimers ?a
      = [(nextTimerId s, now + 15000, ShowSilenceWarning),
         (nextTimerId s + 1, now + 20000, SilenceExpired)]"
    by (simp add: watchdogTimers_def resetSilenceTimer_armed_fields(1) [OF assms(2)] c_none
          isWatchdog_def)
  have old: "\<forall>t \<in> set (pendingTimers ?c). fst t < nextTimerId s \<and> \<not> isWatchdog t"
    using c_ok c_none c_next by (auto simp: timersOk_def filter_empty_conv)
  have dist: "distinct (map fst (pendingTimers ?c))"
    using c_ok by (simp add: timersOk_def)
  have ok: "timersOk ?a"
    unfolding timersOk_def resetSilenceTimer_armed_fields [OF assms(2)]
    using old dist by (auto simp: isWatchdog_def)
  show ?thesis
    unfolding armedAt_def using ok wd assms(2) by simp
qed

subsubsection \<open>What the timers depend on\<close>

definition timerView :: "session \<Rightarrow> timer list \<times> nat \<times> nat option \<times> nat option" where
  "timerView s = (pendingTimers s, nextTimerId s, warningTimerRef s, silenceTimerRef s)"

lemma timersOk_view: "timerView s' = timerView s \<Longrightarrow> timersOk s \<Longrightarrow> timersOk s'"
  by (simp add: timerView_def timersOk_def)


text \<open>The streaming of the feedback sets and clears no timer.\<close>

lemma timerView_deliver: "timerView (snd (deliver vs chunks resolved)) = timerView (snd vs)"
  by (induction chunks arbitrary: vs resolved)
     (simp_all add: onChunkReceived_def Let_def timerView_def)

lemma timerView_feedbackStreaming:
  "timerView (snd (feedbackStreaming parseScore responseStream entryTranscript resolved late s))
     = timerView s"
proof -
  let ?r = "streamDetailedExaminerFeedback parseScore responseStream entryTranscript"
  let ?v0 = "\<lparr>fullFeedbackText = [], textBuffer = [], speechRequests = [],
               pendingSpeech = [], audioQueue = []\<rparr>"
  have "timerView (snd (feedbackStreaming parseScore responseStream entryTranscript resolved late s))
          = timerView (snd (deliver (?v0, s) (chunksDelivered ?r) resolved))"
    by (simp add: feedbackStreaming_def Let_def split_beta timerView_def)
  then show ?thesis
    by (simp add: timerView_deliver)
qed

subsubsection \<open>The call of \<open>triggerFeedbackPhase\<close> in one task\<close>

text \<open>
  With fewer than two entries in the transcript the service delivers the one brief
  text and the function runs to its end: the placeholder holds that text and the phase
  is the question round.
\<close>

lemma feedbackStreaming_brief:
  assumes "length entryTranscript < 2"
  shows "examState (snd (feedbackStreaming parseScore responseStream entryTranscript resolved late s0))
           = QA"
    and "silenceWarningVisible
           (snd (feedbackStreaming parseScore responseStream entryTranscript resolved late s0))
           = silenceWarningVisible s0"
    and "transcripts (snd (feedbackStreaming parseScore responseStream entryTranscript resolved late s0))
           = rewriteLastExaminer shortFeedback (rewriteLastExaminer shortFeedback (transcripts s0))"
  using assms
  by (simp_all add: feedbackStreaming_def streamDetailedExaminerFeedback_def Let_def split_beta
        onChunkReceived_def)

lemma triggerFeedbackPhase_task_fields:
  assumes "examState c = InProgress"
  shows "examState (triggerFeedbackPhase_task c)
           = (if length (transcripts c) < 2 then QA else Feedback)"
    and "\<not> silenceWarningVisible (triggerFeedbackPhase_task c)"
    and "transcripts (triggerFeedbackPhase_task c)
           = transcripts c @ [\<lparr>role = Examiner,
                text' = (if length (transcripts c) < 2 then shortFeedback else ''...'')\<rparr>]"
    and "timerView (triggerFeedbackPhase_task c) = timerView (triggerFeedbackPhase c)"
proof -
  note p = triggerFeedbackPhase_in_progress [OF assms]
  show "examState (triggerFeedbackPhase_task c)
           = (if length (transcripts c) < 2 then QA else Feedback)"
    using assms p by (simp add: triggerFeedbackPhase_task_def feedbackStreaming_brief)
  show "\<not> silenceWarningVisible (triggerFeedbackPhase_task c)"
    using assms p by (simp add: triggerFeedbackPhase_task_def feedbackStreaming_brief)
  show "transcripts (triggerFeedbackPhase_task c)
           = transcripts c @ [\<lparr>role = Examiner,
                text' = (if length (transcripts c) < 2 then shortFeedback else ''...'')\<rparr>]"
    using assms p
    by (simp add: triggerFeedbackPhase_task_def feedbackStreaming_brief rewriteLastExaminer_snoc)
  show "timerView (triggerFeedbackPhase_task c) = timerView (triggerFeedbackPhase c)"
    using assms by (simp add: triggerFeedbackPhase_task_def timerView_feedbackStreaming)
qed

lemma triggerFeedbackPhase_task_other:
  "examState x \<noteq> InProgress \<Longrightarrow> triggerFeedbackPhase_task x = x"
  by (simp add: triggerFeedbackPhase_task_def)

subsubsection \<open>One expiry\<close>

lemma expire_other:
  assumes "\<not> isWatchdog x"
  shows "examState (expire x s) = examState s"
    and "silenceWarningVisible (expire x s) = silenceWarningVisible s"
    and "transcripts (expire x s) = transcripts s"
    and "warningTimerRef (expire x s) = warningTimerRef s"
    and "silenceTimerRef (expire x s) = silenceTimerRef s"
    and "nextTimerId (expire x s) = nextTimerId s"
    and "pendingTimers (expire x s) = filter (\<lambda>t. fst t \<noteq> fst x) (pendingTimers s)"
  using assms
  by (cases "snd (snd x)";
      simp add: isWatchdog_def expire_def clearTimeout_def connectToPatientSession_def)+

lemma expire_other_ok:
  assumes "timersOk s" and "x \<in> set (pendingTimers s)" and "\<not> isWatchdog x"
  shows "timersOk (expire x s)" and "watchdogTimers (expire x s) = watchdogTimers s"
proof -
  show "timersOk (expire x s)"
    using assms(1) unfolding timersOk_def expire_other [OF assms(3)]
    by (simp add: distinct_map_filter)
  have "distinct (map fst (pendingTimers s))"
    using assms(1) by (simp add: timersOk_def)
  then show "watchdogTimers (expire x s) = watchdogTimers s"
    unfolding watchdogTimers_def expire_other [OF assms(3)]
    using assms(2,3) by (rule remove_other_keeps_watchdog)
qed




subsubsection \<open>Time passing\<close>







subsubsection \<open>Letting time pass in two steps\<close>






subsubsection \<open>Turn completion\<close>

lemma armedAt_buffers [simp]:
  "armedAt t0 (s\<lparr>currentInput := a, currentOutput := b,
                 currentStudentTranscript := c, currentSpTranscript := d\<rparr>) = armedAt t0 s"
  by (simp add: armedAt_def timersOk_def watchdogTimers_def)

lemma timersOk_setTimeout_other:
  assumes "timersOk s" and "cb \<noteq> ShowSilenceWarning" and "cb \<noteq> SilenceExpired"
  shows "timersOk (snd (setTimeout cb delay now s))"
  using assms by (auto simp: timersOk_def setTimeout_def)










subsubsection \<open>The timers are in order in every session the component can reach\<close>

inductive reachable :: "session \<Rightarrow> bool" where
  mounted: "reachable initialSession"
| initialized: "reachable readySession"
| started: "reachable s \<Longrightarrow> reachable (handleStartExam audioReady s)"
| greeted: "reachable s \<Longrightarrow> reachable (resetSilenceTimer now s)"
| message: "reachable s \<Longrightarrow> reachable (onmessage now m s)"
| opened: "reachable s \<Longrightarrow> reachable (onopen s)"
| errored: "reachable s \<Longrightarrow> reachable (onerror s)"
| closed: "reachable s \<Longrightarrow> reachable (onclose now s)"
| passed: "reachable s \<Longrightarrow> reachable (runTimers now s)"
| streamed: "reachable s \<Longrightarrow>
     reachable (snd (feedbackStreaming parseScore responseStream entryTranscript resolved late s))"
| ended: "reachable s \<Longrightarrow> reachable (handleEndExam s)"
| editing: "reachable s \<Longrightarrow> reachable (handleEditScores s)"
| cancelled: "reachable s \<Longrightarrow> reachable (handleCancelEditScores s)"
| saved: "reachable s \<Longrightarrow> reachable (handleSaveScores s)"
| changed: "reachable s \<Longrightarrow> reachable (handleScoreChange cat newScore s)"

lemma timersOk_resetSilenceTimer: "timersOk s \<Longrightarrow> timersOk (resetSilenceTimer now s)"
proof (cases "examState s = InProgress")
  case True
  assume "timersOk s"
  then have "armedAt now (resetSilenceTimer now s)"
    using True by (rule resetSilenceTimer_arms)
  then show ?thesis by (simp add: armedAt_def)
next
  case False
  assume ok: "timersOk s"
  let ?c = "clearIfSet (silenceTimerRef s) (clearIfSet (warningTimerRef s) s)"
  have c: "timersOk ?c"
    using ok by (simp add: timersOk_clearIfSet)
  have "timerView (resetSilenceTimer now s) = timerView ?c"
    using False by (simp add: resetSilenceTimer_def Let_def timerView_def)
  then show ?thesis
    using c by (rule timersOk_view)
qed

lemma timersOk_triggerFeedbackPhase: "timersOk s \<Longrightarrow> timersOk (triggerFeedbackPhase s)"
proof (cases "examState s = InProgress")
  case True
  assume ok: "timersOk s"
  let ?c = "clearIfSet (warningTimerRef s) (clearIfSet (silenceTimerRef s) s)"
  have c: "timersOk ?c"
    using ok by (simp add: timersOk_clearIfSet)
  have "timerView (triggerFeedbackPhase s) = timerView ?c"
    using True by (simp add: triggerFeedbackPhase_def Let_def timerView_def)
  then show ?thesis
    using c by (rule timersOk_view)
next
  case False
  assume "timersOk s"
  then show ?thesis using False by (simp add: triggerFeedbackPhase_def)
qed

lemma timersOk_triggerFeedbackPhase_task:
  assumes "timersOk s"
  shows "timersOk (triggerFeedbackPhase_task s)"
proof (cases "examState s = InProgress")
  case True
  have "timersOk (triggerFeedbackPhase s)"
    using assms by (rule timersOk_triggerFeedbackPhase)
  with triggerFeedbackPhase_task_fields(4) [OF True] show ?thesis
    by (rule timersOk_view)
next
  case False
  then show ?thesis
    using assms by (simp add: triggerFeedbackPhase_task_other)
qed

lemma timersOk_onmessage: "timersOk s \<Longrightarrow> timersOk (onmessage now m s)"
proof -
  assume ok: "timersOk s"
  have reset: "timersOk (resetSilenceTimer now x)" if "timersOk x" for x
    using that by (rule timersOk_resetSilenceTimer)
  have hide: "timersOk (snd (setTimeout HideUnclearAudio 3000 now x))" if "timersOk x" for x
    using that by (simp add: timersOk_setTimeout_other)
  have upd: "timersOk (x\<lparr>currentInput := a\<rparr>) = timersOk x"
    "timersOk (x\<lparr>currentOutput := a\<rparr>) = timersOk x"
    "timersOk (x\<lparr>currentStudentTranscript := a\<rparr>) = timersOk x"
    "timersOk (x\<lparr>currentSpTranscript := a\<rparr>) = timersOk x"
    "timersOk (x\<lparr>unclearAudioWarning := u\<rparr>) = timersOk x"
    "timersOk (x\<lparr>transcripts := ts\<rparr>) = timersOk x" for x a u ts
    by (simp_all add: timersOk_def)
  show ?thesis
    using ok
    by (cases "inputTranscription m"; cases "outputTranscription m")
       (simp_all add: onmessage_def Let_def reset hide upd)
qed

lemma timersOk_expire:
  assumes "timersOk s" and "x \<in> set (pendingTimers s)"
  shows "timersOk (expire x s)"
proof (cases "isWatchdog x")
  case False
  with assms show ?thesis by (simp add: expire_other_ok)
next
  case True
  have c: "timersOk (clearTimeout (fst x) s)"
    unfolding clearTimeout_def using assms(1) by (rule timersOk_filter)
  from True show ?thesis
  proof (cases "snd (snd x) = ShowSilenceWarning")
    case True
    then have "expire x s = (clearTimeout (fst x) s)\<lparr>silenceWarningVisible := True\<rparr>"
      by (simp add: expire_def)
    then show ?thesis using c by (simp add: timersOk_def)
  next
    case False
    then have "snd (snd x) = SilenceExpired"
      using \<open>isWatchdog x\<close> by (simp add: isWatchdog_def)
    then have "expire x s
        = triggerFeedbackPhase_task ((clearTimeout (fst x) s)\<lparr>silenceWarningVisible := False\<rparr>)"
      by (simp add: expire_def)
    moreover have "timersOk ((clearTimeout (fst x) s)\<lparr>silenceWarningVisible := False\<rparr>)"
      using c by (simp add: timersOk_def)
    ultimately show ?thesis
      by (simp add: timersOk_triggerFeedbackPhase_task)
  qed
qed

lemma timersOk_runTimers: "timersOk s \<Longrightarrow> timersOk (runTimers now s)"
proof (induction now s rule: runTimers.induct)
  case (1 now s)
  show ?case
  proof (cases "nextDue now (pendingTimers s)")
    case None
    then show ?thesis using "1.prems" by (simp add: runTimers.simps)
  next
    case (Some x)
    have "timersOk (expire x s)"
      using "1.prems" nextDue_Some(1) [OF Some] by (rule timersOk_expire)
    from "1.IH" [OF Some this] show ?thesis
      using Some by (simp add: runTimers.simps)
  qed
qed

lemma timersOk_handleEndExam: "timersOk s \<Longrightarrow> timersOk (handleEndExam s)"
proof -
  assume ok: "timersOk s"
  let ?s1 = "s\<lparr>examState := Ended, sessionClosed := True\<rparr>"
  have "timersOk ?s1" using ok by (simp add: timersOk_def)
  then have "timersOk (clearIfSet (warningTimerRef ?s1) (clearIfSet (silenceTimerRef ?s1) ?s1))"
    by (simp add: timersOk_clearIfSet)
  then show ?thesis
    by (simp add: handleEndExam_def Let_def)
qed

lemma reachable_timersOk: "reachable s \<Longrightarrow> timersOk s"
proof (induction rule: reachable.induct)
  case mounted
  show ?case by (simp add: timersOk_def initialSession_def)
next
  case initialized
  show ?case by (simp add: timersOk_def readySession_def initialSession_def)
next
  case (started s audioReady)
  then show ?case by (simp add: timersOk_def handleStartExam_def)
next
  case (greeted s now)
  then show ?case by (simp add: timersOk_resetSilenceTimer)
next
  case (message s now m)
  then show ?case by (simp add: timersOk_onmessage)
next
  case (opened s)
  then show ?case by (simp add: timersOk_def onopen_def)
next
  case (errored s)
  then show ?case by (simp add: timersOk_def onerror_def)
next
  case (closed s now)
  then show ?case by (auto simp: timersOk_def onclose_def setTimeout_def Let_def)
next
  case (passed s now)
  then show ?case by (simp add: timersOk_runTimers)
next
  case (streamed s parseScore responseStream entryTranscript resolved late)
  then have "timersOk s" by simp
  then show ?case by (rule timersOk_view [OF timerView_feedbackStreaming])
next
  case (ended s)
  then show ?case by (simp add: timersOk_handleEndExam)
next
  case (editing s)
  then show ?case by (simp add: timersOk_def handleEditScores_def)
next
  case (cancelled s)
  then show ?case by (simp add: timersOk_def handleCancelEditScores_def)
next
  case (saved s)
  then show ?case by (simp add: timersOk_def handleSaveScores_def Let_def split: option.splits)
next
  case (changed s cat newScore)
  then show ?case by (simp add: timersOk_def handleScoreChange_def)
qed

end
